theory Spec2Isabelle
  imports Main "HOL-Library.Sublist"
begin

section \<open>JavaScript values\<close>

text \<open>
  The entries handed to the plugins of \<^verbatim>\<open>sourcebit.js\<close> are JSON-like JavaScript values.
  An object is the list of its property definitions; an array is the list of its
  elements. Numbers are never computed on by the code, so they are carried as
  integers. Strings are lists of characters.
\<close>

datatype jsval =
    JUndefined
  | JNull
  | JBool bool
  | JNum int
  | JStr string
  | JArr "jsval list"
  | JObj "(string \<times> jsval) list"

text \<open>
  What the code can throw: a \<^verbatim>\<open>TypeError\<close> (property read on \<^verbatim>\<open>undefined\<close> or
  \<^verbatim>\<open>null\<close>, call of something that is not a function), and a failure of
  \<^verbatim>\<open>fs.mkdirSync\<close> or \<^verbatim>\<open>fs.writeFileSync\<close>.
\<close>

datatype error = TypeError | FsError

subsection \<open>Property lists\<close>

text \<open>
  A property list is read as an object literal is: \<^verbatim>\<open>{a: 1, b: 2, a: 3}\<close> has the
  property \<^verbatim>\<open>a\<close> once, with the value defined last. The functions are polymorphic in the
  type of the values, so that they serve values as trees and values in a store alike.
\<close>

fun lookup :: "(string \<times> 'v) list \<Rightarrow> string \<Rightarrow> 'v option" where
  "lookup [] k = None"
| "lookup ((k', v) # ps) k =
     (case lookup ps k of
        Some w \<Rightarrow> Some w
      | None \<Rightarrow> if k' = k then Some v else None)"

fun has_key :: "(string \<times> 'v) list \<Rightarrow> string \<Rightarrow> bool" where
  "has_key [] k = False"
| "has_key ((k', v) # ps) k = (k' = k \<or> has_key ps k)"

fun overwrite :: "(string \<times> 'v) list \<Rightarrow> string \<Rightarrow> 'v \<Rightarrow> (string \<times> 'v) list" where
  "overwrite [] k v = []"
| "overwrite ((k', v') # ps) k v =
     (if k' = k then (k, v) # ps else (k', v') # overwrite ps k v)"

definition is_digit :: "char \<Rightarrow> bool" where
  "is_digit c = (c \<in> set ''0123456789'')"

definition digit_val :: "char \<Rightarrow> int" where
  "digit_val c = of_char c - 48"

definition digit_char :: "nat \<Rightarrow> char" where
  "digit_char d = ''0123456789'' ! d"

definition read_int :: "string \<Rightarrow> int" where
  "read_int s = foldl (\<lambda>acc c. 10 * acc + digit_val c) 0 s"

fun show_nat :: "nat \<Rightarrow> string" where
  "show_nat n =
     (if n < 10 then [digit_char n] else show_nat (n div 10) @ [digit_char (n mod 10)])"

declare show_nat.simps [simp del]

text \<open>
  An array index is a key that is the canonical decimal numeral of a number below
  \<open>2^32 - 1\<close>. An ordinary object enumerates its array-index keys first, in ascending
  numeric order, and then its other string keys in the order of their creation.
\<close>

definition array_index :: "string \<Rightarrow> int option" where
  "array_index k =
     (if k \<noteq> [] \<and> list_all is_digit k \<and> (k = ''0'' \<or> hd k \<noteq> CHR ''0'')
         \<and> read_int k < 4294967295
      then Some (read_int k) else None)"

fun insert_index :: "int \<Rightarrow> string \<Rightarrow> 'v \<Rightarrow> (string \<times> 'v) list \<Rightarrow> (string \<times> 'v) list" where
  "insert_index n k v [] = [(k, v)]"
| "insert_index n k v ((k', v') # ps) =
     (case array_index k' of
        Some m \<Rightarrow> if m < n then (k', v') # insert_index n k v ps
                  else (k, v) # (k', v') # ps
      | None \<Rightarrow> (k, v) # (k', v') # ps)"

text \<open>
  \<^verbatim>\<open>CreateDataProperty\<close> on an ordinary object under construction: an existing key
  keeps its place and takes the new value, a new array-index key goes among the index
  keys, any other new key goes last.
\<close>

definition defineProp :: "(string \<times> 'v) list \<Rightarrow> string \<Rightarrow> 'v \<Rightarrow> (string \<times> 'v) list" where
  "defineProp ps k v =
     (if has_key ps k then overwrite ps k v
      else case array_index k of
             Some n \<Rightarrow> insert_index n k v ps
           | None \<Rightarrow> ps @ [(k, v)])"

fun defineProps :: "(string \<times> 'v) list \<Rightarrow> (string \<times> 'v) list \<Rightarrow> (string \<times> 'v) list" where
  "defineProps ps [] = ps"
| "defineProps ps ((k, v) # qs) = defineProps (defineProp ps k v) qs"

fun indexed :: "nat \<Rightarrow> 'v list \<Rightarrow> (string \<times> 'v) list" where
  "indexed i [] = []"
| "indexed i (x # xs) = (show_nat i, x) # indexed (Suc i) xs"

subsection \<open>Reading properties of a value\<close>

text \<open>
  The own enumerable string-keyed properties, in enumeration order, that an object
  spread \<^verbatim>\<open>{...v}\<close> or a rest pattern \<^verbatim>\<open>{k, ...rest} = v\<close> copies: those of an object,
  the elements of an array, the characters of a string; nothing for the other
  primitives.
\<close>

fun ownProps :: "jsval \<Rightarrow> (string \<times> jsval) list" where
  "ownProps (JObj ps) = defineProps [] ps"
| "ownProps (JArr xs) = indexed 0 xs"
| "ownProps (JStr s) = indexed 0 (map (\<lambda>c. JStr [c]) s)"
| "ownProps _ = []"

text \<open>
  The property read \<^verbatim>\<open>v.k\<close>. It throws on \<^verbatim>\<open>undefined\<close> and \<^verbatim>\<open>null\<close>. On an array or
  a string the own properties are the indices and \<^verbatim>\<open>length\<close>; every other name the
  code reads (\<^verbatim>\<open>__metadata\<close>, \<^verbatim>\<open>modelName\<close>, \<^verbatim>\<open>objects\<close>) is not a property of the
  built-in prototypes, and reads as \<^verbatim>\<open>undefined\<close>.
\<close>

fun getProp :: "jsval \<Rightarrow> string \<Rightarrow> error + jsval" where
  "getProp JUndefined k = Inl TypeError"
| "getProp JNull k = Inl TypeError"
| "getProp (JObj ps) k = (case lookup ps k of Some v \<Rightarrow> Inr v | None \<Rightarrow> Inr JUndefined)"
| "getProp (JArr xs) k =
     (if k = ''length'' then Inr (JNum (int (length xs)))
      else case lookup (indexed 0 xs) k of Some v \<Rightarrow> Inr v | None \<Rightarrow> Inr JUndefined)"
| "getProp (JStr s) k =
     (if k = ''length'' then Inr (JNum (int (length s)))
      else case lookup (indexed 0 (map (\<lambda>c. JStr [c]) s)) k of
             Some v \<Rightarrow> Inr v | None \<Rightarrow> Inr JUndefined)"
| "getProp (JBool b) k = Inr JUndefined"
| "getProp (JNum n) k = Inr JUndefined"

section \<open>The page utilities\<close>

text \<open>
  \<^verbatim>\<open>sourcebit.js\<close> imports \<^verbatim>\<open>cssClassesFromUrlPath\<close> and \<^verbatim>\<open>getPageUrl\<close> from
  \<^verbatim>\<open>./src/utils/page-utils\<close>, a module of the repository that is not among the sources.
\<close>

fun split_on :: "char \<Rightarrow> string \<Rightarrow> string list" where
  "split_on sep [] = [[]]"
| "split_on sep (c # cs) =
     (if c = sep then [] # split_on sep cs
      else case split_on sep cs of
             seg # segs \<Rightarrow> (c # seg) # segs
           | [] \<Rightarrow> [[c]])"

fun join_on :: "char \<Rightarrow> string list \<Rightarrow> string" where
  "join_on sep [] = []"
| "join_on sep [seg] = seg"
| "join_on sep (seg # segs) = seg @ sep # join_on sep segs"

definition is_upper :: "char \<Rightarrow> bool" where
  "is_upper c = (65 \<le> (of_char c :: nat) \<and> (of_char c :: nat) \<le> 90)"

definition is_lower :: "char \<Rightarrow> bool" where
  "is_lower c = (97 \<le> (of_char c :: nat) \<and> (of_char c :: nat) \<le> 122)"

definition to_lower :: "char \<Rightarrow> char" where
  "to_lower c = (if is_upper c then char_of (of_char c + (32 :: nat)) else c)"

definition is_alnum :: "char \<Rightarrow> bool" where
  "is_alnum c = (is_digit c \<or> is_lower c \<or> is_upper c)"

definition sanitize :: "string \<Rightarrow> string" where
  "sanitize seg = map (\<lambda>c. if is_alnum c then to_lower c else CHR ''-'') seg"

text \<open>
  Modelled from the spec: \<^verbatim>\<open>cssClassesFromUrlPath\<close> of \<^verbatim>\<open>src/utils/page-utils\<close> is
  missing. The spec: split \<^verbatim>\<open>urlPath\<close> on \<^verbatim>\<open>/\<close>, discard empty segments, and for each
  remaining segment emit a sanitized class token (lowercase, non-alphanumeric characters
  replaced with \<^verbatim>\<open>-\<close>); if no segments remain, emit a single sentinel token
  representing the root page (\<^verbatim>\<open>home\<close>).
\<close>

definition cssClassesFromUrlPath :: "string \<Rightarrow> string list" where
  "cssClassesFromUrlPath urlPath =
     (let segments = filter (\<lambda>seg. seg \<noteq> []) (split_on (CHR ''/'') urlPath)
      in if segments = [] then [''home''] else map sanitize segments)"

section \<open>The plugin options of \<^verbatim>\<open>sourcebit.js\<close>\<close>

subsection \<open>Array methods with a callback that may throw\<close>

fun findE :: "('a \<Rightarrow> error + bool) \<Rightarrow> 'a list \<Rightarrow> error + 'a option" where
  "findE p [] = Inr None"
| "findE p (x # xs) =
     (case p x of
        Inl e \<Rightarrow> Inl e
      | Inr True \<Rightarrow> Inr (Some x)
      | Inr False \<Rightarrow> findE p xs)"

fun filterE :: "('a \<Rightarrow> error + bool) \<Rightarrow> 'a list \<Rightarrow> error + 'a list" where
  "filterE p [] = Inr []"
| "filterE p (x # xs) =
     (case p x of
        Inl e \<Rightarrow> Inl e
      | Inr b \<Rightarrow>
          (case filterE p xs of
             Inl e \<Rightarrow> Inl e
           | Inr ys \<Rightarrow> Inr (if b then x # ys else ys)))"

fun mapE :: "('a \<Rightarrow> error + 'b) \<Rightarrow> 'a list \<Rightarrow> error + 'b list" where
  "mapE f [] = Inr []"
| "mapE f (x # xs) =
     (case f x of
        Inl e \<Rightarrow> Inl e
      | Inr y \<Rightarrow>
          (case mapE f xs of
             Inl e \<Rightarrow> Inl e
           | Inr ys \<Rightarrow> Inr (y # ys)))"

subsection \<open>\<^verbatim>\<open>commonProps\<close> and \<^verbatim>\<open>pages\<close>\<close>

text \<open>The expression \<^verbatim>\<open>page.__metadata.modelName\<close>, read by all three callbacks.\<close>

definition modelName :: "jsval \<Rightarrow> error + jsval" where
  "modelName page =
     (case getProp page ''__metadata'' of
        Inl e \<Rightarrow> Inl e
      | Inr metadata \<Rightarrow> getProp metadata ''modelName'')"

text \<open>\<^verbatim>\<open>page.__metadata.modelName === name\<close>: strict equality with a string literal.\<close>

definition modelName_is :: "string \<Rightarrow> jsval \<Rightarrow> error + bool" where
  "modelName_is name page =
     (case modelName page of
        Inl e \<Rightarrow> Inl e
      | Inr mn \<Rightarrow> Inr (mn = JStr name))"

definition pageModels :: "string list" where
  "pageModels = [''PageLayout'', ''PostFeedLayout'', ''PostLayout'']"

text \<open>\<^verbatim>\<open>['PageLayout', 'PostFeedLayout', 'PostLayout'].includes(page.__metadata.modelName)\<close>\<close>

definition is_page_model :: "jsval \<Rightarrow> error + bool" where
  "is_page_model page =
     (case modelName page of
        Inl e \<Rightarrow> Inl e
      | Inr mn \<Rightarrow> Inr (mn \<in> set (map JStr pageModels)))"

text \<open>
  \<^verbatim>\<open>commonProps\<close>: \<^verbatim>\<open>objects.find(...)\<close> gives \<^verbatim>\<open>undefined\<close> when no element matches, and
  the result is the object \<^verbatim>\<open>{ site }\<close>.
\<close>

definition commonProps :: "jsval list \<Rightarrow> error + jsval" where
  "commonProps objects =
     (case findE (modelName_is ''Config'') objects of
        Inl e \<Rightarrow> Inl e
      | Inr found \<Rightarrow>
          Inr (JObj [(''site'', case found of Some site \<Rightarrow> site | None \<Rightarrow> JUndefined)]))"

text \<open>
  The callback of \<^verbatim>\<open>pageObjects.map\<close>. \<^verbatim>\<open>getPageUrl\<close> is the other missing function of
  \<^verbatim>\<open>src/utils/page-utils\<close>; the spec gives no rule for it (only that \<^verbatim>\<open>urlPath\<close> is a
  string derived from the entry), so it is a parameter. The rest pattern builds the
  object \<^verbatim>\<open>restProps\<close> from the properties of \<^verbatim>\<open>page\<close> other than \<^verbatim>\<open>__metadata\<close>; the
  two object literals are built property by property in source order.
\<close>

definition restProps :: "jsval \<Rightarrow> jsval" where
  "restProps page =
     JObj (defineProps [] (filter (\<lambda>(k, v). k \<noteq> ''__metadata'') (ownProps page)))"

definition newMetadata :: "jsval \<Rightarrow> string \<Rightarrow> jsval" where
  "newMetadata metadata urlPath =
     JObj (defineProps []
             (ownProps metadata @
              [(''urlPath'', JStr urlPath),
               (''pageCssClasses'', JArr (map JStr (cssClassesFromUrlPath urlPath)))]))"

definition enrich :: "(jsval \<Rightarrow> string) \<Rightarrow> jsval \<Rightarrow> error + jsval" where
  "enrich getPageUrl page =
     (case getProp page ''__metadata'' of
        Inl e \<Rightarrow> Inl e
      | Inr metadata \<Rightarrow>
          Inr (JObj (defineProps [(''__metadata'', newMetadata metadata (getPageUrl page))]
                       (ownProps (restProps page)))))"

definition pages :: "(jsval \<Rightarrow> string) \<Rightarrow> jsval list \<Rightarrow> error + jsval list" where
  "pages getPageUrl objects =
     (case filterE is_page_model objects of
        Inl e \<Rightarrow> Inl e
      | Inr pageObjects \<Rightarrow> mapE (enrich getPageUrl) pageObjects)"

subsection \<open>The middleware that saves the \<^verbatim>\<open>ThemeStyle\<close> object\<close>

text \<open>
  The file system, as far as \<^verbatim>\<open>fs.existsSync\<close>, \<^verbatim>\<open>fs.mkdirSync\<close> and
  \<^verbatim>\<open>fs.writeFileSync\<close> see it: the directories that exist and the contents of the files
  that exist. A path is the list of its components. Every failure of the two writing
  calls is the one error \<^verbatim>\<open>FsError\<close>; the causes modelled are those the tree itself gives
  (a file where a directory is needed, no parent directory, a directory where the file
  is to go).
\<close>

type_synonym path = "string list"

record filesystem =
  dirs :: "path set"
  files :: "path \<rightharpoonup> string"

text \<open>\<^verbatim>\<open>path.join\<close> of a path and a relative path without \<^verbatim>\<open>.\<close> or \<^verbatim>\<open>..\<close> segments.\<close>

definition path_join :: "path \<Rightarrow> string \<Rightarrow> path" where
  "path_join p rel = p @ filter (\<lambda>seg. seg \<noteq> []) (split_on (CHR ''/'') rel)"

definition existsSync :: "filesystem \<Rightarrow> path \<Rightarrow> bool" where
  "existsSync fs p = (p \<in> dirs fs \<or> files fs p \<noteq> None)"

text \<open>\<^verbatim>\<open>fs.mkdirSync(p, { recursive: true })\<close>\<close>

definition mkdirSync_recursive :: "filesystem \<Rightarrow> path \<Rightarrow> error + filesystem" where
  "mkdirSync_recursive fs p =
     (if list_ex (\<lambda>q. files fs q \<noteq> None) (prefixes p) then Inl FsError
      else Inr (fs\<lparr>dirs := dirs fs \<union> set (prefixes p)\<rparr>))"

definition writeFileSync :: "filesystem \<Rightarrow> path \<Rightarrow> string \<Rightarrow> error + filesystem" where
  "writeFileSync fs p content =
     (if p = [] \<or> p \<in> dirs fs \<or> butlast p \<notin> dirs fs then Inl FsError
      else Inr (fs\<lparr>files := (files fs)(p \<mapsto> content)\<rparr>))"

text \<open>
  The body of the \<^verbatim>\<open>if\<close> in the callback of \<^verbatim>\<open>data.objects.find\<close>. \<^verbatim>\<open>dirname\<close> is
  \<^verbatim>\<open>__dirname\<close>, \<^verbatim>\<open>stringify object\<close> is \<^verbatim>\<open>JSON.stringify(object, null, 4)\<close>, the
  serializer of the host. A throw leaves the file system as it was at the throw.
\<close>

definition save_style ::
  "path \<Rightarrow> (jsval \<Rightarrow> string) \<Rightarrow> filesystem \<Rightarrow> jsval \<Rightarrow> (error + bool) \<times> filesystem" where
  "save_style dirname stringify fs object =
     (let dir = path_join dirname ''content/data'' in
      case (if \<not> existsSync fs dir then mkdirSync_recursive fs dir else Inr fs) of
        Inl e \<Rightarrow> (Inl e, fs)
      | Inr fs1 \<Rightarrow>
          (case writeFileSync fs1 (path_join dir ''style.json'') (stringify object) of
             Inl e \<Rightarrow> (Inl e, fs1)
           | Inr fs2 \<Rightarrow> (Inr True, fs2)))"

text \<open>
  \<^verbatim>\<open>data.objects.find(callback)\<close>: the callback returns \<^verbatim>\<open>true\<close> after it has written the
  file, which ends the search, and \<^verbatim>\<open>undefined\<close> for any other object.
\<close>

fun find_ThemeStyle ::
  "path \<Rightarrow> (jsval \<Rightarrow> string) \<Rightarrow> filesystem \<Rightarrow> jsval list \<Rightarrow> (error + jsval) \<times> filesystem" where
  "find_ThemeStyle dirname stringify fs [] = (Inr JUndefined, fs)"
| "find_ThemeStyle dirname stringify fs (object # objects) =
     (case modelName_is ''ThemeStyle'' object of
        Inl e \<Rightarrow> (Inl e, fs)
      | Inr True \<Rightarrow>
          (case save_style dirname stringify fs object of
             (Inl e, fs') \<Rightarrow> (Inl e, fs')
           | (Inr found, fs') \<Rightarrow>
               if found then (Inr object, fs')
               else find_ThemeStyle dirname stringify fs' objects)
      | Inr False \<Rightarrow> find_ThemeStyle dirname stringify fs objects)"

definition transform ::
  "path \<Rightarrow> (jsval \<Rightarrow> string) \<Rightarrow> filesystem \<Rightarrow> jsval \<Rightarrow> (error + jsval) \<times> filesystem" where
  "transform dirname stringify fs data =
     (case getProp data ''objects'' of
        Inl e \<Rightarrow> (Inl e, fs)
      | Inr (JArr objects) \<Rightarrow>
          (case find_ThemeStyle dirname stringify fs objects of
             (Inl e, fs') \<Rightarrow> (Inl e, fs')
           | (Inr found, fs') \<Rightarrow> (Inr data, fs'))
      | Inr other \<Rightarrow> (Inl TypeError, fs))"

subsection \<open>The plugins in sequence\<close>

text \<open>
  The plugins of \<^verbatim>\<open>module.exports.plugins\<close> run in the order of the array, each on the
  data that the one before returned. The plugin after the middleware is
  \<^verbatim>\<open>sourcebit-target-next\<close>, an external module; it is a parameter here, a function of
  the data it is handed.
\<close>

definition run_plugins ::
  "path \<Rightarrow> (jsval \<Rightarrow> string) \<Rightarrow> (jsval \<Rightarrow> error + jsval) \<Rightarrow> filesystem \<Rightarrow> jsval
     \<Rightarrow> (error + jsval) \<times> filesystem" where
  "run_plugins dirname stringify next_plugin fs data =
     (case transform dirname stringify fs data of
        (Inl e, fs') \<Rightarrow> (Inl e, fs')
      | (Inr data', fs') \<Rightarrow> (next_plugin data', fs'))"

section \<open>\<^verbatim>\<open>pages\<close> on a store\<close>

text \<open>
  Objects and arrays of JavaScript are mutable and shared by reference. To state what
  \<^verbatim>\<open>pages()\<close> does to its input, the values are taken once more with the store explicit:
  a value is a primitive or a reference, the store is the list of the cells allocated
  so far, and a reference is an index into it. Allocation appends a cell. The code of
  \<^verbatim>\<open>pages()\<close> has no assignment to a property or an element, so the only store operation
  of the model besides reading is allocation.
\<close>

datatype hval =
    VUndefined
  | VNull
  | VBool bool
  | VNum int
  | VStr string
  | VRef nat

datatype cell =
    Object "(string \<times> hval) list"
  | Array "hval list"

type_synonym store = "cell list"

definition alloc :: "store \<Rightarrow> cell \<Rightarrow> hval \<times> store" where
  "alloc h c = (VRef (length h), h @ [c])"

definition cell_at :: "store \<Rightarrow> nat \<Rightarrow> cell option" where
  "cell_at h a = (if a < length h then Some (h ! a) else None)"

text \<open>
  Reading through a reference. A reference that a JavaScript program holds always
  points to an allocated cell; for an index outside the store the functions answer as
  for an object without properties.
\<close>

fun ownPropsH :: "store \<Rightarrow> hval \<Rightarrow> (string \<times> hval) list" where
  "ownPropsH h (VRef a) =
     (case cell_at h a of
        Some (Object ps) \<Rightarrow> defineProps [] ps
      | Some (Array xs) \<Rightarrow> indexed 0 xs
      | None \<Rightarrow> [])"
| "ownPropsH h (VStr s) = indexed 0 (map (\<lambda>c. VStr [c]) s)"
| "ownPropsH h v = []"

fun getPropH :: "store \<Rightarrow> hval \<Rightarrow> string \<Rightarrow> error + hval" where
  "getPropH h VUndefined k = Inl TypeError"
| "getPropH h VNull k = Inl TypeError"
| "getPropH h (VRef a) k =
     (case cell_at h a of
        Some (Object ps) \<Rightarrow> (case lookup ps k of Some v \<Rightarrow> Inr v | None \<Rightarrow> Inr VUndefined)
      | Some (Array xs) \<Rightarrow>
          (if k = ''length'' then Inr (VNum (int (length xs)))
           else case lookup (indexed 0 xs) k of Some v \<Rightarrow> Inr v | None \<Rightarrow> Inr VUndefined)
      | None \<Rightarrow> Inr VUndefined)"
| "getPropH h (VStr s) k =
     (if k = ''length'' then Inr (VNum (int (length s)))
      else case lookup (indexed 0 (map (\<lambda>c. VStr [c]) s)) k of
             Some v \<Rightarrow> Inr v | None \<Rightarrow> Inr VUndefined)"
| "getPropH h (VBool b) k = Inr VUndefined"
| "getPropH h (VNum n) k = Inr VUndefined"

definition modelNameH :: "store \<Rightarrow> hval \<Rightarrow> error + hval" where
  "modelNameH h page =
     (case getPropH h page ''__metadata'' of
        Inl e \<Rightarrow> Inl e
      | Inr metadata \<Rightarrow> getPropH h metadata ''modelName'')"

definition is_page_modelH :: "store \<Rightarrow> hval \<Rightarrow> error + bool" where
  "is_page_modelH h page =
     (case modelNameH h page of
        Inl e \<Rightarrow> Inl e
      | Inr mn \<Rightarrow> Inr (mn \<in> set (map VStr pageModels)))"

text \<open>
  The callback of \<^verbatim>\<open>map\<close>. Its new cells are the object \<^verbatim>\<open>restProps\<close>, the array that
  \<^verbatim>\<open>cssClassesFromUrlPath\<close> returns, the new metadata object and the new page object.
  The model allocates each one when its contents are known; the index that a cell gets
  is not observable in JavaScript. \<^verbatim>\<open>getPageUrl\<close> reads the store and returns a string.
\<close>

definition enrichH ::
  "(store \<Rightarrow> hval \<Rightarrow> string) \<Rightarrow> store \<Rightarrow> hval \<Rightarrow> error + hval \<times> store" where
  "enrichH getPageUrl h page =
     (case getPropH h page ''__metadata'' of
        Inl e \<Rightarrow> Inl e
      | Inr metadata \<Rightarrow>
          (let (restProps, h1) =
                 alloc h (Object (defineProps []
                            (filter (\<lambda>(k, v). k \<noteq> ''__metadata'') (ownPropsH h page))));
               urlPath = getPageUrl h1 page;
               (classes, h2) = alloc h1 (Array (map VStr (cssClassesFromUrlPath urlPath)));
               (newMetadata, h3) =
                 alloc h2 (Object (defineProps []
                            (ownPropsH h2 metadata @
                             [(''urlPath'', VStr urlPath), (''pageCssClasses'', classes)])));
               (newPage, h4) =
                 alloc h3 (Object (defineProps [(''__metadata'', newMetadata)]
                            (ownPropsH h3 restProps)))
           in Inr (newPage, h4)))"

fun mapH ::
  "(store \<Rightarrow> hval \<Rightarrow> string) \<Rightarrow> store \<Rightarrow> hval list \<Rightarrow> error + hval list \<times> store" where
  "mapH getPageUrl h [] = Inr ([], h)"
| "mapH getPageUrl h (page # rest) =
     (case enrichH getPageUrl h page of
        Inl e \<Rightarrow> Inl e
      | Inr (out, h1) \<Rightarrow>
          (case mapH getPageUrl h1 rest of
             Inl e \<Rightarrow> Inl e
           | Inr (outs, h2) \<Rightarrow> Inr (out # outs, h2)))"

text \<open>
  \<^verbatim>\<open>pages\<close>: \<^verbatim>\<open>objects.filter\<close> allocates the array \<^verbatim>\<open>pageObjects\<close>, \<^verbatim>\<open>pageObjects.map\<close>
  the array \<^verbatim>\<open>pages\<close>, and \<^verbatim>\<open>[...pages]\<close> the array that is returned. A value that is
  not an array has no \<^verbatim>\<open>filter\<close> method, and the call throws.
\<close>

definition pagesH ::
  "(store \<Rightarrow> hval \<Rightarrow> string) \<Rightarrow> store \<Rightarrow> hval \<Rightarrow> error + hval \<times> store" where
  "pagesH getPageUrl h objects =
     (case objects of
        VRef a \<Rightarrow>
          (case cell_at h a of
             Some (Array entries) \<Rightarrow>
               (case filterE (is_page_modelH h) entries of
                  Inl e \<Rightarrow> Inl e
                | Inr selected \<Rightarrow>
                    (let (pageObjects, h1) = alloc h (Array selected) in
                     case mapH getPageUrl h1 selected of
                       Inl e \<Rightarrow> Inl e
                     | Inr (outs, h2) \<Rightarrow>
                         (let (pages, h3) = alloc h2 (Array outs);
                              (copy, h4) = alloc h3 (Array outs)
                          in Inr (copy, h4))))
           | _ \<Rightarrow> Inl TypeError)
      | _ \<Rightarrow> Inl TypeError)"

text \<open>
  \<^verbatim>\<open>commonProps\<close> on the store: \<^verbatim>\<open>find\<close> only reads, and the object \<^verbatim>\<open>{ site }\<close> is a new
  cell.
\<close>

definition modelName_isH :: "string \<Rightarrow> store \<Rightarrow> hval \<Rightarrow> error + bool" where
  "modelName_isH name h page =
     (case modelNameH h page of
        Inl e \<Rightarrow> Inl e
      | Inr mn \<Rightarrow> Inr (mn = VStr name))"

definition commonPropsH :: "store \<Rightarrow> hval \<Rightarrow> error + hval \<times> store" where
  "commonPropsH h objects =
     (case objects of
        VRef a \<Rightarrow>
          (case cell_at h a of
             Some (Array entries) \<Rightarrow>
               (case findE (modelName_isH ''Config'' h) entries of
                  Inl e \<Rightarrow> Inl e
                | Inr found \<Rightarrow>
                    Inr (alloc h (Object [(''site'', case found of Some site \<Rightarrow> site
                                                    | None \<Rightarrow> VUndefined)])))
           | _ \<Rightarrow> Inl TypeError)
      | _ \<Rightarrow> Inl TypeError)"

text \<open>
  What a page record \<^verbatim>\<open>out\<close> in the store \<^verbatim>\<open>h'\<close> has to do with the entry it was made
  from in the store \<^verbatim>\<open>h\<close>: it is a new object; every property but \<^verbatim>\<open>__metadata\<close> reads
  as it does on the entry; its \<^verbatim>\<open>__metadata\<close> is a new object whose properties, but for
  \<^verbatim>\<open>urlPath\<close> and \<^verbatim>\<open>pageCssClasses\<close>, read as they do on the metadata of the entry, whose
  \<^verbatim>\<open>urlPath\<close> is the string that \<^verbatim>\<open>getPageUrl\<close> gave for the entry and whose
  \<^verbatim>\<open>pageCssClasses\<close> is a new array of the classes of that string.
\<close>

definition page_record ::
  "(store \<Rightarrow> hval \<Rightarrow> string) \<Rightarrow> store \<Rightarrow> store \<Rightarrow> hval \<Rightarrow> hval \<Rightarrow> bool" where
  "page_record getPageUrl h h' entry out =
     ((\<exists>p ps. out = VRef p \<and> length h \<le> p \<and> cell_at h' p = Some (Object ps))
      \<and> (\<forall>k. k \<noteq> ''__metadata'' \<longrightarrow> getPropH h' out k = getPropH h entry k)
      \<and> (\<exists>metadata m mps c hu.
            getPropH h entry ''__metadata'' = Inr metadata
          \<and> getPropH h' out ''__metadata'' = Inr (VRef m) \<and> length h \<le> m
          \<and> cell_at h' m = Some (Object mps)
          \<and> (\<forall>k. k \<noteq> ''urlPath'' \<and> k \<noteq> ''pageCssClasses'' \<longrightarrow>
                 getPropH h' (VRef m) k = getPropH h metadata k)
          \<and> prefix h hu \<and> prefix hu h'
          \<and> getPropH h' (VRef m) ''urlPath'' = Inr (VStr (getPageUrl hu entry))
          \<and> getPropH h' (VRef m) ''pageCssClasses'' = Inr (VRef c) \<and> length h \<le> c
          \<and> cell_at h' c = Some (Array (map VStr (cssClassesFromUrlPath (getPageUrl hu entry))))))"

text \<open>
  An entry that passes the test of \<^verbatim>\<open>filter\<close> is an object whose \<^verbatim>\<open>__metadata\<close> is an
  object.
\<close>

definition selectedH :: "store \<Rightarrow> hval \<Rightarrow> bool" where
  "selectedH h page = (\<exists>a ps b mps. page = VRef a \<and> cell_at h a = Some (Object ps)
           \<and> lookup ps ''__metadata'' = Some (VRef b) \<and> cell_at h b = Some (Object mps))"

text \<open>
  The two models of the values are related by representation: a tree is represented by a
  primitive equal to it, or by a reference to a cell whose properties or elements
  represent those of the tree, key by key and in the same order.
\<close>

primrec repr :: "jsval \<Rightarrow> store \<Rightarrow> hval \<Rightarrow> bool" where
  "repr JUndefined h v = (v = VUndefined)"
| "repr JNull h v = (v = VNull)"
| "repr (JBool b) h v = (v = VBool b)"
| "repr (JNum n) h v = (v = VNum n)"
| "repr (JStr s) h v = (v = VStr s)"
| "repr (JArr ts) h v =
     (case v of
        VRef a \<Rightarrow>
          (case cell_at h a of
             Some (Array xs) \<Rightarrow> list_all2 (\<lambda>r x. r h x) (map repr ts) xs
           | _ \<Rightarrow> False)
      | _ \<Rightarrow> False)"
| "repr (JObj ts) h v =
     (case v of
        VRef a \<Rightarrow>
          (case cell_at h a of
             Some (Object ps) \<Rightarrow>
               list_all2 (\<lambda>(k, r) (k', x). k = k' \<and> r h x) (map (map_prod id repr) ts) ps
           | _ \<Rightarrow> False)
      | _ \<Rightarrow> False)"

definition props_rel :: "store \<Rightarrow> (string \<times> jsval) list \<Rightarrow> (string \<times> hval) list \<Rightarrow> bool" where
  "props_rel h ts ps = list_all2 (\<lambda>(k, t) (k', x). k = k' \<and> repr t h x) ts ps"

text \<open>
  Modelled from the spec: \<^verbatim>\<open>getPageUrl\<close> of \<^verbatim>\<open>src/utils/page-utils\<close> is missing. The spec
  has the projector a pure function pipeline over its input snapshot, with \<^verbatim>\<open>urlPath\<close>
  derived from the entry's own fields: what \<^verbatim>\<open>getPageUrl\<close> gives for a value in a store
  is what it gives for the tree that the value represents.
\<close>

definition getPageUrl_pure :: "(store \<Rightarrow> hval \<Rightarrow> string) \<Rightarrow> (jsval \<Rightarrow> string) \<Rightarrow> bool" where
  "getPageUrl_pure getPageUrlH getPageUrl =
     (\<forall>h v t. repr t h v \<longrightarrow> getPageUrlH h v = getPageUrl t)"

text \<open>An example store: a \<^verbatim>\<open>Config\<close> entry, a page entry, and the array of both.\<close>

definition example_store :: store where
  "example_store =
     [Object [(''modelName'', VStr ''Config''), (''id'', VStr ''c1'')],
      Object [(''__metadata'', VRef 0), (''title'', VStr ''Site'')],
      Object [(''modelName'', VStr ''PageLayout''), (''id'', VStr ''p1'')],
      Object [(''__metadata'', VRef 2), (''slug'', VStr ''/about''), (''site'', VRef 1)],
      Array [VRef 1, VRef 3]]"

text \<open>The example store after \<^verbatim>\<open>pages()\<close> has run on the array at index 4.\<close>

definition example_store_after :: store where
  "example_store_after =
     example_store @
     [Array [VRef 3],
      Object [(''slug'', VStr ''/about''), (''site'', VRef 1)],
      Array [VStr ''about''],
      Object [(''modelName'', VStr ''PageLayout''), (''id'', VStr ''p1''),
              (''urlPath'', VStr ''/about''), (''pageCssClasses'', VRef 7)],
      Object [(''__metadata'', VRef 8), (''slug'', VStr ''/about''), (''site'', VRef 1)],
      Array [VRef 9],
      Array [VRef 9]]"

text \<open>The trees that the two entries of the example store represent.\<close>

definition example_store_entries :: "jsval list" where
  "example_store_entries =
     [JObj [(''__metadata'', JObj [(''modelName'', JStr ''Config''), (''id'', JStr ''c1'')]),
            (''title'', JStr ''Site'')],
      JObj [(''__metadata'', JObj [(''modelName'', JStr ''PageLayout''), (''id'', JStr ''p1'')]),
            (''slug'', JStr ''/about''),
            (''site'',
               JObj [(''__metadata'',
                        JObj [(''modelName'', JStr ''Config''), (''id'', JStr ''c1'')]),
                     (''title'', JStr ''Site'')])]]"

text \<open>
  A store with one post whose metadata already has a \<^verbatim>\<open>urlPath\<close>, and the store after
  \<^verbatim>\<open>pages()\<close> has run on the array at index 2.
\<close>

definition example_stale_store :: store where
  "example_stale_store =
     [Object [(''id'', VStr ''b1''), (''modelName'', VStr ''PostLayout''),
              (''urlPath'', VStr ''stale'')],
      Object [(''title'', VStr ''Hello''), (''__metadata'', VRef 0),
              (''slug'', VStr ''blog/hello'')],
      Array [VRef 1]]"

definition example_stale_store_after :: store where
  "example_stale_store_after =
     example_stale_store @
     [Array [VRef 1],
      Object [(''title'', VStr ''Hello''), (''slug'', VStr ''blog/hello'')],
      Array [VStr ''blog'', VStr ''hello''],
      Object [(''id'', VStr ''b1''), (''modelName'', VStr ''PostLayout''),
              (''urlPath'', VStr ''/blog/hello''), (''pageCssClasses'', VRef 5)],
      Object [(''__metadata'', VRef 6), (''title'', VStr ''Hello''),
              (''slug'', VStr ''blog/hello'')],
      Array [VRef 7],
      Array [VRef 7]]"

definition slug_urlH :: "store \<Rightarrow> hval \<Rightarrow> string" where
  "slug_urlH h page =
     (case getPropH h page ''slug'' of
        Inr (VStr (c # cs)) \<Rightarrow> if c = CHR ''/'' then c # cs else CHR ''/'' # c # cs
      | _ \<Rightarrow> ''/'')"

section \<open>Content entries\<close>

text \<open>
  The notions of the specification: a content entry is an object with a metadata record;
  its model name is the string under \<^verbatim>\<open>modelName\<close> in that record.
\<close>

definition metadata_record :: "jsval \<Rightarrow> (string \<times> jsval) list option" where
  "metadata_record entry =
     (case entry of
        JObj ps \<Rightarrow> (case lookup ps ''__metadata'' of Some (JObj md) \<Rightarrow> Some md | _ \<Rightarrow> None)
      | _ \<Rightarrow> None)"

definition entry_modelName :: "jsval \<Rightarrow> string option" where
  "entry_modelName entry =
     (case metadata_record entry of
        Some md \<Rightarrow> (case lookup md ''modelName'' of Some (JStr name) \<Rightarrow> Some name | _ \<Rightarrow> None)
      | None \<Rightarrow> None)"

definition is_page_entry :: "jsval \<Rightarrow> bool" where
  "is_page_entry entry =
     (entry_modelName entry \<in> {Some ''PageLayout'', Some ''PostFeedLayout'', Some ''PostLayout''})"

definition lacks_metadata :: "jsval \<Rightarrow> bool" where
  "lacks_metadata entry =
     (case getProp entry ''__metadata'' of
        Inl e \<Rightarrow> True
      | Inr metadata \<Rightarrow> metadata = JUndefined \<or> metadata = JNull)"

text \<open>
  Modelled from the spec: \<^verbatim>\<open>getPageUrl\<close> of \<^verbatim>\<open>src/utils/page-utils\<close> is missing, and the
  spec leaves its rule open (``schema-specific and not fully specified''). What the spec
  states of its result is the invariant that \<^verbatim>\<open>urlPath\<close> is always a \<^verbatim>\<open>/\<close>-rooted path.
\<close>

definition getPageUrl_contract :: "(jsval \<Rightarrow> string) \<Rightarrow> bool" where
  "getPageUrl_contract getPageUrl = (\<forall>entry. \<exists>rest. getPageUrl entry = CHR ''/'' # rest)"

subsection \<open>The style file\<close>

text \<open>The directory and the file of the side channel, below \<^verbatim>\<open>__dirname\<close>.\<close>

definition style_dir :: "path \<Rightarrow> path" where
  "style_dir dirname = dirname @ [''content'', ''data'']"

definition style_file :: "path \<Rightarrow> path" where
  "style_file dirname = dirname @ [''content'', ''data'', ''style.json'']"

text \<open>Example file systems and an example serializer (the identifier of the entry).\<close>

definition example_fs :: filesystem where
  "example_fs = \<lparr>dirs = {[], [''site'']}, files = Map.empty\<rparr>"

definition example_stringify :: "jsval \<Rightarrow> string" where
  "example_stringify entry =
     (case entry of
        JObj ps \<Rightarrow>
          (case lookup ps ''__metadata'' of
             Some (JObj md) \<Rightarrow> (case lookup md ''id'' of Some (JStr ident) \<Rightarrow> ident | _ \<Rightarrow> [])
           | _ \<Rightarrow> [])
      | _ \<Rightarrow> [])"

definition example_data :: "jsval list \<Rightarrow> jsval" where
  "example_data objects = JObj [(''objects'', JArr objects), (''models'', JArr [])]"

subsection \<open>Example data\<close>

text \<open>
  An instance of the parameter \<^verbatim>\<open>getPageUrl\<close> for the examples: the \<^verbatim>\<open>slug\<close> of the
  entry, behind a slash when it has none. The end-to-end example of the spec has the
  slug \<^verbatim>\<open>/about\<close> give the urlPath \<^verbatim>\<open>/about\<close>.
\<close>

definition slug_url :: "jsval \<Rightarrow> string" where
  "slug_url page =
     (case getProp page ''slug'' of
        Inr (JStr (c # cs)) \<Rightarrow> if c = CHR ''/'' then c # cs else CHR ''/'' # c # cs
      | _ \<Rightarrow> ''/'')"

text \<open>The entries of the spec's end-to-end example, as the spec writes them.\<close>

definition spec_example :: "jsval list" where
  "spec_example =
     [JObj [(''modelName'', JStr ''Config''), (''id'', JStr ''c1'')],
      JObj [(''modelName'', JStr ''PageLayout''), (''id'', JStr ''p1''),
            (''slug'', JStr ''/about'')]]"

text \<open>The same entries with the model name and the identifier in \<^verbatim>\<open>__metadata\<close>.\<close>

definition example_config :: jsval where
  "example_config =
     JObj [(''__metadata'', JObj [(''modelName'', JStr ''Config''), (''id'', JStr ''c1'')])]"

definition example_page :: jsval where
  "example_page =
     JObj [(''__metadata'', JObj [(''modelName'', JStr ''PageLayout''), (''id'', JStr ''p1'')]),
           (''slug'', JStr ''/about'')]"

text \<open>The page record that \<^verbatim>\<open>pages()\<close> makes of \<^verbatim>\<open>example_page\<close> for the urlPath \<^verbatim>\<open>/about\<close>.\<close>

definition example_page_out :: jsval where
  "example_page_out =
     JObj [(''__metadata'',
              JObj [(''modelName'', JStr ''PageLayout''), (''id'', JStr ''p1''),
                    (''urlPath'', JStr ''/about''),
                    (''pageCssClasses'', JArr [JStr ''about''])]),
           (''slug'', JStr ''/about'')]"

definition example_post :: jsval where
  "example_post =
     JObj [(''title'', JStr ''Hello''),
           (''__metadata'', JObj [(''id'', JStr ''b1''), (''modelName'', JStr ''PostLayout''),
                                   (''urlPath'', JStr ''stale'')]),
           (''slug'', JStr ''blog/hello'')]"

definition example_style :: "string \<Rightarrow> jsval" where
  "example_style ident =
     JObj [(''__metadata'', JObj [(''modelName'', JStr ''ThemeStyle''), (''id'', JStr ident)])]"

definition example_malformed :: jsval where
  "example_malformed = JObj [(''title'', JStr ''no metadata'')]"

definition example_untagged :: jsval where
  "example_untagged = JObj [(''__metadata'', JObj [(''id'', JStr ''u1'')])]"

subsection \<open>Property lists without repeated keys\<close>

text \<open>The property lists that \<open>defineProps\<close> builds from the empty list have each key once.\<close>

fun distinct_keys :: "(string \<times> 'v) list \<Rightarrow> bool" where
  "distinct_keys [] = True"
| "distinct_keys ((k, v) # ps) = (\<not> has_key ps k \<and> distinct_keys ps)"

section \<open>Property lists: what a lookup finds after definitions\<close>

lemma lookup_None_iff: "lookup ps k = None \<longleftrightarrow> \<not> has_key ps k"
  by (induction ps) (auto split: option.splits)

lemma lookup_append:
  "lookup (ps @ qs) k = (case lookup qs k of Some w \<Rightarrow> Some w | None \<Rightarrow> lookup ps k)"
  by (induction ps) (auto split: option.splits)

lemma has_key_append: "has_key (ps @ qs) k \<longleftrightarrow> has_key ps k \<or> has_key qs k"
  by (induction ps) auto

lemma lookup_fresh_Cons:
  "\<not> has_key ps k' \<Longrightarrow> lookup ((k', v) # ps) k = (if k = k' then Some v else lookup ps k)"
  using lookup_None_iff [of ps k'] by (auto split: option.splits)

lemma has_key_overwrite: "has_key (overwrite ps k v) k' = has_key ps k'"
  by (induction ps) (auto split: if_splits)

lemma has_key_insert_index: "has_key (insert_index n k v ps) k' \<longleftrightarrow> k' = k \<or> has_key ps k'"
  by (induction ps) (auto split: option.splits if_splits)

lemma has_key_defineProp: "has_key (defineProp ps k v) k' \<longleftrightarrow> k' = k \<or> has_key ps k'"
  by (auto simp: defineProp_def has_key_overwrite has_key_insert_index has_key_append
           split: option.splits)

lemma distinct_overwrite: "distinct_keys ps \<Longrightarrow> distinct_keys (overwrite ps k v)"
  by (induction ps) (auto simp: has_key_overwrite)

lemma distinct_insert_index:
  "distinct_keys ps \<Longrightarrow> \<not> has_key ps k \<Longrightarrow> distinct_keys (insert_index n k v ps)"
  by (induction ps) (auto simp: has_key_insert_index split: option.splits)

lemma distinct_snoc: "distinct_keys ps \<Longrightarrow> \<not> has_key ps k \<Longrightarrow> distinct_keys (ps @ [(k, v)])"
  by (induction ps) (auto simp: has_key_append)

lemma distinct_defineProp: "distinct_keys ps \<Longrightarrow> distinct_keys (defineProp ps k v)"
  by (auto simp: defineProp_def distinct_overwrite distinct_insert_index distinct_snoc
           split: option.splits)

lemma lookup_overwrite:
  "distinct_keys ps \<Longrightarrow> has_key ps k \<Longrightarrow>
   lookup (overwrite ps k v) k' = (if k' = k then Some v else lookup ps k')"
proof (induction ps)
  case Nil
  then show ?case by simp
next
  case (Cons p ps)
  obtain a b where p: "p = (a, b)" by (cases p)
  show ?case
  proof (cases "a = k")
    case True
    with Cons.prems p show ?thesis by (simp add: lookup_fresh_Cons del: lookup.simps(2))
  next
    case False
    with Cons p have "\<not> has_key (overwrite ps k v) a" "\<not> has_key ps a" "has_key ps k"
        "distinct_keys ps"
      by (auto simp: has_key_overwrite)
    with Cons.IH False p show ?thesis
      by (auto simp add: lookup_fresh_Cons simp del: lookup.simps(2))
  qed
qed

lemma lookup_insert_index:
  "distinct_keys ps \<Longrightarrow> \<not> has_key ps k \<Longrightarrow>
   lookup (insert_index n k v ps) k' = (if k' = k then Some v else lookup ps k')"
proof (induction ps)
  case Nil
  then show ?case by simp
next
  case (Cons p ps)
  obtain a b where p: "p = (a, b)" by (cases p)
  from Cons.prems p have fresh: "\<not> has_key ps a" "\<not> has_key ps k" "a \<noteq> k" "distinct_keys ps"
    by auto
  then have fresh': "\<not> has_key (insert_index n k v ps) a" "\<not> has_key ((a, b) # ps) k"
    by (auto simp: has_key_insert_index)
  show ?case
    using Cons.IH fresh fresh' p
    by (auto simp add: lookup_fresh_Cons simp del: lookup.simps(2) has_key.simps(2)
             split: option.splits)
qed

lemma lookup_defineProp:
  "distinct_keys ps \<Longrightarrow>
   lookup (defineProp ps k v) k' = (if k' = k then Some v else lookup ps k')"
  by (auto simp: defineProp_def lookup_overwrite lookup_insert_index lookup_append
           split: option.splits)

lemma distinct_defineProps: "distinct_keys ps \<Longrightarrow> distinct_keys (defineProps ps qs)"
  by (induction qs arbitrary: ps) (auto simp: distinct_defineProp)

lemma lookup_defineProps:
  "distinct_keys ps \<Longrightarrow> lookup (defineProps ps qs) k = lookup (ps @ qs) k"
proof (induction qs arbitrary: ps)
  case Nil
  then show ?case by simp
next
  case (Cons q qs)
  obtain k' v where q: "q = (k', v)" by (cases q)
  have "lookup (defineProps ps (q # qs)) k = lookup (defineProp ps k' v @ qs) k"
    using Cons q by (simp add: distinct_defineProp)
  also have "\<dots> = lookup (ps @ q # qs) k"
    using Cons.prems q by (simp add: lookup_append lookup_defineProp split: option.splits)
  finally show ?case .
qed

lemma lookup_filter_neq:
  "lookup (filter (\<lambda>(k', v). k' \<noteq> x) ps) k = (if k = x then None else lookup ps k)"
  by (induction ps) (auto split: option.splits)

section \<open>Callbacks on well-formed entries\<close>

lemma filterE_total:
  "\<forall>x\<in>set xs. p x = Inr (q x) \<Longrightarrow> filterE p xs = Inr (filter q xs)"
  by (induction xs) auto

lemma mapE_total:
  "\<forall>x\<in>set xs. f x = Inr (g x) \<Longrightarrow> mapE f xs = Inr (map g xs)"
  by (induction xs) auto

lemma findE_total:
  "\<forall>x\<in>set xs. p x = Inr (q x) \<Longrightarrow> findE p xs = Inr (List.find q xs)"
  by (induction xs) auto

lemma metadata_record_getProp:
  "metadata_record entry = Some md \<Longrightarrow> getProp entry ''__metadata'' = Inr (JObj md)"
  by (auto simp: metadata_record_def split: jsval.splits option.splits)

lemma metadata_record_modelName:
  "metadata_record entry = Some md \<Longrightarrow>
   modelName entry = Inr (case lookup md ''modelName'' of Some v \<Rightarrow> v | None \<Rightarrow> JUndefined)"
  by (simp add: modelName_def metadata_record_getProp split: option.splits)

lemma modelName_is_entry:
  assumes "metadata_record entry \<noteq> None"
  shows "modelName_is name entry = Inr (entry_modelName entry = Some name)"
proof -
  from assms obtain md where md: "metadata_record entry = Some md" by auto
  show ?thesis
    by (auto simp: modelName_is_def entry_modelName_def md metadata_record_modelName [OF md]
             split: option.splits jsval.splits)
qed

lemma is_page_model_entry:
  assumes "metadata_record entry \<noteq> None"
  shows "is_page_model entry = Inr (is_page_entry entry)"
proof -
  from assms obtain md where md: "metadata_record entry = Some md" by auto
  show ?thesis
    by (auto simp: is_page_model_def is_page_entry_def entry_modelName_def md pageModels_def
                   metadata_record_modelName [OF md]
             split: option.splits jsval.splits)
qed


lemma lookup_restProps:
  "lookup (ownProps (restProps page)) k = (if k = ''__metadata'' then None else lookup (ownProps page) k)"
  by (simp add: restProps_def lookup_defineProps lookup_filter_neq)

lemma lookup_ownProps_JObj: "lookup (ownProps (JObj ps)) k = lookup ps k"
  by (simp add: lookup_defineProps)

lemma enrich_entry:
  assumes "metadata_record entry = Some md"
  shows "enrich g entry =
           Inr (JObj (defineProps [(''__metadata'', newMetadata (JObj md) (g entry))]
                        (ownProps (restProps entry))))"
  by (simp add: enrich_def metadata_record_getProp [OF assms])

lemma metadata_record_enriched:
  "metadata_record (JObj (defineProps [(''__metadata'', newMetadata metadata u)] (ownProps (restProps entry))))
     = Some (defineProps [] (ownProps metadata @
              [(''urlPath'', JStr u),
               (''pageCssClasses'', JArr (map JStr (cssClassesFromUrlPath u)))]))"
  by (simp add: metadata_record_def lookup_defineProps lookup_append lookup_restProps
                newMetadata_def)

lemma lookup_new_metadata:
  "lookup (defineProps [] (ps @
              [(''urlPath'', JStr u),
               (''pageCssClasses'', JArr (map JStr (cssClassesFromUrlPath u)))])) k
     = (if k = ''pageCssClasses'' then Some (JArr (map JStr (cssClassesFromUrlPath u)))
        else if k = ''urlPath'' then Some (JStr u)
        else lookup ps k)"
  by (simp add: lookup_defineProps lookup_append)

lemma entry_modelName_enriched:
  assumes "metadata_record entry = Some md" and "enrich g entry = Inr page"
  shows "entry_modelName page = entry_modelName entry"
proof -
  from assms have "page = JObj (defineProps [(''__metadata'', newMetadata (JObj md) (g entry))]
                        (ownProps (restProps entry)))"
    by (simp add: enrich_entry)
  then show ?thesis
    using assms(1)
    by (simp add: entry_modelName_def metadata_record_enriched lookup_new_metadata
                  lookup_defineProps)
qed

lemma enrich_fields:
  assumes "metadata_record entry = Some md" and "enrich g entry = Inr page"
    and "k \<noteq> ''__metadata''"
  shows "getProp page k = getProp entry k"
proof -
  from assms(1) obtain ps where ps: "entry = JObj ps"
    by (auto simp: metadata_record_def split: jsval.splits)
  from assms(1,2) have "page = JObj (defineProps [(''__metadata'', newMetadata (JObj md) (g entry))]
                        (ownProps (restProps entry)))"
    by (simp add: enrich_entry)
  then show ?thesis
    using assms(3)
    by (simp add: ps lookup_defineProps lookup_append lookup_restProps split: option.splits)
qed

lemma enrich_result:
  assumes "enrich g entry = Inr page"
  shows "\<exists>metadata. getProp entry ''__metadata'' = Inr metadata
           \<and> page = JObj (defineProps [(''__metadata'', newMetadata metadata (g entry))]
                            (ownProps (restProps entry)))"
  using assms by (auto simp: enrich_def split: sum.splits)

lemma mapE_members:
  "mapE f ys = Inr out \<Longrightarrow> page \<in> set out \<Longrightarrow> \<exists>y\<in>set ys. f y = Inr page"
  by (induction ys arbitrary: out) (auto split: sum.splits)

lemma filterE_members:
  "filterE p xs = Inr ys \<Longrightarrow> y \<in> set ys \<Longrightarrow> y \<in> set xs \<and> p y = Inr True"
  by (induction xs arbitrary: ys) (auto split: sum.splits if_splits)

section \<open>Callbacks that throw\<close>

lemma getProp_error: "getProp v k = Inl e \<Longrightarrow> e = TypeError"
  by (cases v) (auto split: option.splits if_splits)

lemma modelName_error: "modelName v = Inl e \<Longrightarrow> e = TypeError"
  by (auto simp: modelName_def split: sum.splits dest: getProp_error)

lemma is_page_model_error: "is_page_model v = Inl e \<Longrightarrow> e = TypeError"
  by (auto simp: is_page_model_def split: sum.splits dest: modelName_error)

lemma lacks_metadata_throws: "lacks_metadata entry \<Longrightarrow> modelName entry = Inl TypeError"
  by (auto simp: lacks_metadata_def modelName_def split: sum.splits dest: getProp_error)

lemma filterE_throws:
  assumes "x \<in> set xs" and "p x = Inl e" and "\<forall>y e'. p y = Inl e' \<longrightarrow> e' = e"
  shows "filterE p xs = Inl e"
  using assms(1)
proof (induction xs)
  case Nil
  then show ?case by simp
next
  case (Cons a xs)
  show ?case
  proof (cases "p a")
    case (Inl e')
    then have "e' = e" using assms(3) by blast
    with Inl show ?thesis by simp
  next
    case (Inr b)
    show ?thesis
    proof (cases "a = x")
      case True
      with Inr assms(2) show ?thesis by simp
    next
      case False
      with Cons have "filterE p xs = Inl e" by simp
      with Inr show ?thesis by simp
    qed
  qed
qed

lemma filterE_skip:
  "p x = Inr False \<Longrightarrow> filterE p (xs @ x # ys) = filterE p (xs @ ys)"
  by (induction xs) (auto split: sum.splits)

section \<open>Writing the style file\<close>

lemma path_join_style_dir: "path_join dirname ''content/data'' = style_dir dirname"
  by (simp add: path_join_def style_dir_def)

lemma path_join_style_file: "path_join (style_dir dirname) ''style.json'' = style_file dirname"
  by (simp add: path_join_def style_dir_def style_file_def)

lemma style_file_props:
  "style_file d \<noteq> []" "butlast (style_file d) = style_dir d"
  "\<not> prefix (style_file d) (style_dir d)"
  by (auto simp: style_file_def style_dir_def butlast_append)

lemma save_style_unfold:
  "save_style d str fs obj =
     (case (if \<not> existsSync fs (style_dir d) then mkdirSync_recursive fs (style_dir d) else Inr fs) of
        Inl e \<Rightarrow> (Inl e, fs)
      | Inr fs1 \<Rightarrow>
          (case writeFileSync fs1 (style_file d) (str obj) of
             Inl e \<Rightarrow> (Inl e, fs1)
           | Inr fs2 \<Rightarrow> (Inr True, fs2)))"
  by (simp add: save_style_def Let_def path_join_style_dir path_join_style_file
           cong: sum.case_cong)

lemma save_style_True: "save_style d str fs obj = (Inr b, fs') \<Longrightarrow> b"
  by (auto simp: save_style_unfold split: sum.splits if_splits)

lemma save_style_error: "save_style d str fs obj = (Inl e, fs') \<Longrightarrow> e = FsError"
  by (auto simp: save_style_unfold mkdirSync_recursive_def writeFileSync_def
           split: sum.splits if_splits)

lemma save_style_ok:
  assumes "\<not> list_ex (\<lambda>q. files fs q \<noteq> None) (prefixes (style_dir d))"
    and "style_file d \<notin> dirs fs"
  shows "\<exists>fs'. save_style d str fs obj = (Inr True, fs')
           \<and> files fs' = (files fs)(style_file d \<mapsto> str obj)
           \<and> dirs fs' = (if existsSync fs (style_dir d) then dirs fs
                          else dirs fs \<union> set (prefixes (style_dir d)))"
proof (cases "existsSync fs (style_dir d)")
  case True
  with assms(1) have "style_dir d \<in> dirs fs"
    by (auto simp: existsSync_def list_ex_iff)
  with True assms(2) show ?thesis
    by (simp add: save_style_unfold writeFileSync_def style_file_props)
next
  case False
  with assms show ?thesis
    by (simp add: save_style_unfold mkdirSync_recursive_def writeFileSync_def style_file_props)
qed

lemma save_style_idem:
  assumes "save_style d str fs obj = (r, fs')"
  shows "save_style d str fs' obj = (r, fs')"
proof (cases "existsSync fs (style_dir d)")
  case True
  show ?thesis
  proof (cases "writeFileSync fs (style_file d) (str obj)")
    case (Inl e)
    with True assms show ?thesis by (auto simp: save_style_unfold)
  next
    case (Inr fs2)
    with True assms have r: "r = Inr True" "fs' = fs2" by (auto simp: save_style_unfold)
    from Inr have fs2: "fs2 = fs\<lparr>files := (files fs)(style_file d \<mapsto> str obj)\<rparr>"
      and ok: "style_file d \<notin> dirs fs" "style_dir d \<in> dirs fs"
      by (auto simp: writeFileSync_def style_file_props split: if_splits)
    have "existsSync fs2 (style_dir d)" using ok by (simp add: existsSync_def fs2)
    moreover have "writeFileSync fs2 (style_file d) (str obj) = Inr fs2"
      using ok by (simp add: writeFileSync_def fs2 style_file_props)
    ultimately show ?thesis by (simp add: save_style_unfold r)
  qed
next
  case False
  show ?thesis
  proof (cases "mkdirSync_recursive fs (style_dir d)")
    case (Inl e)
    with False assms show ?thesis by (auto simp: save_style_unfold)
  next
    case (Inr fs1)
    then have fs1: "fs1 = fs\<lparr>dirs := dirs fs \<union> set (prefixes (style_dir d))\<rparr>"
      by (auto simp: mkdirSync_recursive_def split: if_splits)
    have ex1: "existsSync fs1 (style_dir d)"
      by (simp add: existsSync_def fs1 style_file_props)
    show ?thesis
    proof (cases "writeFileSync fs1 (style_file d) (str obj)")
      case (Inl e)
      with False Inr assms have "r = Inl e" "fs' = fs1" by (auto simp: save_style_unfold)
      with Inl ex1 show ?thesis by (simp add: save_style_unfold)
    next
      case w: (Inr fs2)
      with False Inr assms have r: "r = Inr True" "fs' = fs2" by (auto simp: save_style_unfold)
      from w have fs2: "fs2 = fs1\<lparr>files := (files fs1)(style_file d \<mapsto> str obj)\<rparr>"
        and ok: "style_file d \<notin> dirs fs1" "style_dir d \<in> dirs fs1"
        by (auto simp: writeFileSync_def style_file_props split: if_splits)
      have "existsSync fs2 (style_dir d)" using ok by (simp add: existsSync_def fs2)
      moreover have "writeFileSync fs2 (style_file d) (str obj) = Inr fs2"
        using ok by (simp add: writeFileSync_def fs2 style_file_props)
      ultimately show ?thesis by (simp add: save_style_unfold r)
    qed
  qed
qed

lemma find_ThemeStyle_idem:
  "find_ThemeStyle d str fs xs = (r, fs') \<Longrightarrow> find_ThemeStyle d str fs' xs = (r, fs')"
proof (induction xs)
  case Nil
  then show ?case by simp
next
  case (Cons x xs)
  show ?case
  proof (cases "modelName_is ''ThemeStyle'' x")
    case (Inl e)
    with Cons.prems show ?thesis by auto
  next
    case (Inr b)
    show ?thesis
    proof (cases b)
      case False
      with Inr Cons show ?thesis by simp
    next
      case True
      obtain r1 fs1 where s: "save_style d str fs x = (r1, fs1)" by (cases "save_style d str fs x")
      have fs1: "fs' = fs1" and idem: "save_style d str fs1 x = (r1, fs1)"
        using Cons.prems Inr True s save_style_True [of d str fs x _ fs1] save_style_idem [OF s]
        by (auto split: sum.splits if_splits)
      from Cons.prems Inr True s idem fs1 save_style_True [of d str fs x _ fs1] show ?thesis
        by (auto split: sum.splits if_splits)
    qed
  qed
qed

lemma transform_idem:
  "transform d str fs data = (r, fs') \<Longrightarrow> transform d str fs' data = (r, fs')"
  by (auto simp: transform_def split: sum.splits jsval.splits prod.splits
           dest: find_ThemeStyle_idem)

lemma find_ThemeStyle_first:
  assumes "\<forall>entry\<in>set before. modelName_is ''ThemeStyle'' entry = Inr False"
    and "modelName_is ''ThemeStyle'' style = Inr True"
  shows "find_ThemeStyle d str fs (before @ style # after) =
           (case save_style d str fs style of
              (Inl e, fs') \<Rightarrow> (Inl e, fs')
            | (Inr found, fs') \<Rightarrow> (Inr style, fs'))"
  using assms(1)
proof (induction before)
  case Nil
  show ?case using assms(2) save_style_True [of d str fs style]
    by (auto split: prod.splits sum.splits)
next
  case (Cons a before)
  then show ?case by simp
qed

lemma find_ThemeStyle_none:
  "\<forall>entry\<in>set objects. modelName_is ''ThemeStyle'' entry = Inr False \<Longrightarrow>
   find_ThemeStyle d str fs objects = (Inr JUndefined, fs)"
  by (induction objects) auto

lemma find_ThemeStyle_entries:
  assumes "\<forall>entry\<in>set objects. metadata_record entry \<noteq> None"
  shows "find_ThemeStyle d str fs objects =
           (case List.find (\<lambda>entry. entry_modelName entry = Some ''ThemeStyle'') objects of
              None \<Rightarrow> (Inr JUndefined, fs)
            | Some style \<Rightarrow>
                (case save_style d str fs style of
                   (Inl e, fs') \<Rightarrow> (Inl e, fs')
                 | (Inr found, fs') \<Rightarrow> (Inr style, fs')))"
  using assms
proof (induction objects)
  case Nil
  then show ?case by simp
next
  case (Cons x xs)
  then have x: "modelName_is ''ThemeStyle'' x = Inr (entry_modelName x = Some ''ThemeStyle'')"
    by (simp add: modelName_is_entry)
  show ?case
  proof (cases "entry_modelName x = Some ''ThemeStyle''")
    case True
    with x save_style_True [of d str fs x] show ?thesis
      by (auto split: prod.splits sum.splits)
  next
    case False
    with x Cons show ?thesis by simp
  qed
qed

lemma find_first:
  "\<forall>e\<in>set before. \<not> P e \<Longrightarrow> P x \<Longrightarrow> List.find P (before @ x # after) = Some x"
  by (induction before) auto

section \<open>The store of \<^verbatim>\<open>pages\<close> only grows\<close>

lemma digit_char_is_digit: "d < 10 \<Longrightarrow> is_digit (digit_char d)"
  unfolding is_digit_def digit_char_def by (rule nth_mem) simp

lemma show_nat_digits: "list_all is_digit (show_nat n)"
proof (induction n rule: show_nat.induct)
  case (1 n)
  show ?case
  proof (cases "n < 10")
    case True
    then show ?thesis by (subst show_nat.simps) (simp add: digit_char_is_digit)
  next
    case False
    with 1 have "list_all is_digit (show_nat (n div 10))" by simp
    with False show ?thesis by (subst show_nat.simps) (simp add: digit_char_is_digit)
  qed
qed

lemma has_key_indexed: "has_key (indexed i xs) k \<Longrightarrow> list_all is_digit k"
  by (induction xs arbitrary: i) (auto simp: show_nat_digits)

lemma lookup_indexed_name:
  "\<not> list_all is_digit k \<Longrightarrow> lookup (indexed i xs) k = None"
  using has_key_indexed [of i xs k] by (auto simp: lookup_None_iff)

lemma lookup_indexed_names:
  "lookup (indexed i xs) ''__metadata'' = None" "lookup (indexed i xs) ''modelName'' = None"
  by (rule lookup_indexed_name, simp add: is_digit_def)+

lemma is_page_modelH_True:
  assumes "is_page_modelH h page = Inr True"
  shows "\<exists>a ps b mps. page = VRef a \<and> cell_at h a = Some (Object ps)
           \<and> lookup ps ''__metadata'' = Some (VRef b) \<and> cell_at h b = Some (Object mps)"
proof -
  from assms obtain metadata mn where
    md: "getPropH h page ''__metadata'' = Inr metadata"
    and mn: "getPropH h metadata ''modelName'' = Inr mn"
    and allow: "mn \<in> set (map VStr pageModels)"
    by (auto simp: is_page_modelH_def modelNameH_def split: sum.splits)
  from allow have mn_str: "mn \<noteq> VUndefined" by auto
  from mn mn_str obtain b mps where
    b: "metadata = VRef b" "cell_at h b = Some (Object mps)"
    by (cases metadata)
       (auto simp: lookup_indexed_names split: option.splits cell.splits)
  from md b obtain a ps where "page = VRef a" "cell_at h a = Some (Object ps)"
    "lookup ps ''__metadata'' = Some (VRef b)"
    by (cases page)
       (auto simp: lookup_indexed_names split: option.splits cell.splits)
  with b show ?thesis by blast
qed

lemma cell_at_less: "cell_at h a = Some c \<Longrightarrow> a < length h"
  by (simp add: cell_at_def split: if_splits)

lemma cell_at_prefix: "prefix h h' \<Longrightarrow> cell_at h a = Some c \<Longrightarrow> cell_at h' a = Some c"
  by (auto simp: cell_at_def prefix_def nth_append split: if_splits)

lemma cell_at_new: "cell_at (h @ [c]) (length h) = Some c"
  by (simp add: cell_at_def)

lemma getPropH_prefix:
  "prefix h h' \<Longrightarrow> cell_at h a = Some c \<Longrightarrow> getPropH h' (VRef a) k = getPropH h (VRef a) k"
  by (simp add: cell_at_prefix)

lemma ownPropsH_prefix:
  "prefix h h' \<Longrightarrow> cell_at h a = Some c \<Longrightarrow> ownPropsH h' (VRef a) = ownPropsH h (VRef a)"
  by (simp add: cell_at_prefix)

lemma lookup_restH:
  "lookup (defineProps [(''__metadata'', m)]
             (defineProps [] (defineProps []
                (filter (\<lambda>(k, v). k \<noteq> ''__metadata'') (defineProps [] ps))))) k
     = (if k = ''__metadata'' then Some m else lookup ps k)"
  by (simp add: lookup_defineProps lookup_append lookup_filter_neq split: option.splits)

lemma lookup_metadataH:
  "lookup (defineProps [] (defineProps [] mps @ [(''urlPath'', u), (''pageCssClasses'', c)])) k
     = (if k = ''pageCssClasses'' then Some c else if k = ''urlPath'' then Some u
        else lookup mps k)"
  by (simp add: lookup_defineProps lookup_append)

lemma enrichH_record:
  assumes a: "cell_at h a = Some (Object ps)"
    and md: "lookup ps ''__metadata'' = Some (VRef b)"
    and b: "cell_at h b = Some (Object mps)"
    and run: "enrichH g h (VRef a) = Inr (out, h')"
  shows "prefix h h' \<and> page_record g h h' (VRef a) out"
proof -
  define rest where
    "rest = defineProps [] (filter (\<lambda>(k, v). k \<noteq> ''__metadata'') (defineProps [] ps))"
  define h1 where "h1 = h @ [Object rest]"
  define u where "u = g h1 (VRef a)"
  define h2 where "h2 = h1 @ [Array (map VStr (cssClassesFromUrlPath u))]"
  define newmd where
    "newmd = defineProps [] (defineProps [] mps @
               [(''urlPath'', VStr u), (''pageCssClasses'', VRef (length h + 1))])"
  define h3 where "h3 = h2 @ [Object newmd]"
  define newpage where
    "newpage = defineProps [(''__metadata'', VRef (length h + 2))] (defineProps [] rest)"
  from a b have lt: "a < length h" "b < length h" by (auto dest: cell_at_less)
  have pre: "prefix h h1" "prefix h1 h2" "prefix h2 h3" "prefix h h2"
    by (simp_all add: h1_def h2_def h3_def)
  have b2: "cell_at h2 b = Some (Object mps)"
    using cell_at_prefix [OF pre(4) b] .
  have res: "out = VRef (length h + 3) \<and> h' = h3 @ [Object newpage]"
    using run a md b lt
    unfolding newpage_def h3_def newmd_def h2_def u_def h1_def rest_def
    by (auto simp: enrichH_def alloc_def Let_def cell_at_def nth_append)
  define p where "p = length h + 3"
  define m where "m = length h + 2"
  define c where "c = length h + 1"
  from res have out: "out = VRef p" and h': "h' = h3 @ [Object newpage]"
    by (simp_all add: p_def)
  have pre': "prefix h h'" "prefix h1 h'"
    by (simp_all add: h' h3_def h2_def h1_def)
  have cp: "cell_at h' p = Some (Object newpage)"
    by (simp add: cell_at_def h' h3_def h2_def h1_def nth_append p_def)
  have cm: "cell_at h' m = Some (Object newmd)"
    by (simp add: cell_at_def h' h3_def h2_def h1_def nth_append m_def)
  have cc: "cell_at h' c = Some (Array (map VStr (cssClassesFromUrlPath u)))"
    by (simp add: cell_at_def h' h3_def h2_def h1_def nth_append c_def)
  have np: "lookup newpage k = (if k = ''__metadata'' then Some (VRef m) else lookup ps k)" for k
    unfolding newpage_def rest_def m_def by (rule lookup_restH)
  have nm: "lookup newmd k = (if k = ''pageCssClasses'' then Some (VRef c)
              else if k = ''urlPath'' then Some (VStr u) else lookup mps k)" for k
    unfolding newmd_def c_def by (rule lookup_metadataH)
  have fields: "getPropH h' out k = getPropH h (VRef a) k" if "k \<noteq> ''__metadata''" for k
    using that by (simp add: out cp a np)
  have meta: "getPropH h' out ''__metadata'' = Inr (VRef m)"
    by (simp add: out cp np)
  have old_meta: "getPropH h (VRef a) ''__metadata'' = Inr (VRef b)"
    by (simp add: a md)
  have mfields: "getPropH h' (VRef m) k = getPropH h (VRef b) k"
    if "k \<noteq> ''urlPath'' \<and> k \<noteq> ''pageCssClasses''" for k
    using that by (simp add: cm b nm)
  have murl: "getPropH h' (VRef m) ''urlPath'' = Inr (VStr (g h1 (VRef a)))"
    by (simp add: cm nm u_def)
  have mcss: "getPropH h' (VRef m) ''pageCssClasses'' = Inr (VRef c)"
    by (simp add: cm nm)
  have fresh: "length h \<le> p" "length h \<le> m" "length h \<le> c"
    by (simp_all add: p_def m_def c_def)
  have "page_record g h h' (VRef a) out"
    unfolding page_record_def
  proof (intro conjI)
    show "\<exists>p ps. out = VRef p \<and> length h \<le> p \<and> cell_at h' p = Some (Object ps)"
      using out cp fresh by blast
    show "\<forall>k. k \<noteq> ''__metadata'' \<longrightarrow> getPropH h' out k = getPropH h (VRef a) k"
      using fields by blast
    have F: "getPropH h (VRef a) ''__metadata'' = Inr (VRef b)
          \<and> getPropH h' out ''__metadata'' = Inr (VRef m) \<and> length h \<le> m
          \<and> cell_at h' m = Some (Object newmd)
          \<and> (\<forall>k. k \<noteq> ''urlPath'' \<and> k \<noteq> ''pageCssClasses'' \<longrightarrow>
                 getPropH h' (VRef m) k = getPropH h (VRef b) k)
          \<and> prefix h h1 \<and> prefix h1 h'
          \<and> getPropH h' (VRef m) ''urlPath'' = Inr (VStr (g h1 (VRef a)))
          \<and> getPropH h' (VRef m) ''pageCssClasses'' = Inr (VRef c) \<and> length h \<le> c
          \<and> cell_at h' c = Some (Array (map VStr (cssClassesFromUrlPath (g h1 (VRef a)))))"
      using old_meta meta fresh cm mfields pre(1) pre'(2) murl mcss cc [unfolded u_def]
      by (intro conjI allI impI)
    show "\<exists>metadata m mps c hu.
            getPropH h (VRef a) ''__metadata'' = Inr metadata
          \<and> getPropH h' out ''__metadata'' = Inr (VRef m) \<and> length h \<le> m
          \<and> cell_at h' m = Some (Object mps)
          \<and> (\<forall>k. k \<noteq> ''urlPath'' \<and> k \<noteq> ''pageCssClasses'' \<longrightarrow>
                 getPropH h' (VRef m) k = getPropH h metadata k)
          \<and> prefix h hu \<and> prefix hu h'
          \<and> getPropH h' (VRef m) ''urlPath'' = Inr (VStr (g hu (VRef a)))
          \<and> getPropH h' (VRef m) ''pageCssClasses'' = Inr (VRef c) \<and> length h \<le> c
          \<and> cell_at h' c = Some (Array (map VStr (cssClassesFromUrlPath (g hu (VRef a)))))"
      by (rule exI [of _ "VRef b"], rule exI [of _ m], rule exI [of _ newmd],
          rule exI [of _ c], rule exI [of _ h1]) (rule F)
  qed
  with pre'(1) show ?thesis by simp
qed

lemma page_record_mono:
  assumes rec: "page_record g h1 h2 (VRef a) out"
    and a: "cell_at h0 a = Some (Object ps)"
    and md: "lookup ps ''__metadata'' = Some (VRef b)"
    and b: "cell_at h0 b = Some (Object mps)"
    and p01: "prefix h0 h1" and p23: "prefix h2 h3"
  shows "page_record g h0 h3 (VRef a) out"
proof -
  note R = rec [unfolded page_record_def]
  from R [THEN conjunct1] obtain p pps where
    out: "out = VRef p" "length h1 \<le> p" "cell_at h2 p = Some (Object pps)"
    by (elim exE conjE) (rule that; assumption)
  from R have fields: "\<forall>k. k \<noteq> ''__metadata'' \<longrightarrow> getPropH h2 out k = getPropH h1 (VRef a) k"
    by (elim conjE)
  from R [THEN conjunct2, THEN conjunct2] obtain metadata m nps c hu where
    m: "getPropH h1 (VRef a) ''__metadata'' = Inr metadata"
       "getPropH h2 out ''__metadata'' = Inr (VRef m)" "length h1 \<le> m"
       "cell_at h2 m = Some (Object nps)"
       "\<forall>k. k \<noteq> ''urlPath'' \<and> k \<noteq> ''pageCssClasses'' \<longrightarrow>
                 getPropH h2 (VRef m) k = getPropH h1 metadata k"
       "prefix h1 hu" "prefix hu h2"
       "getPropH h2 (VRef m) ''urlPath'' = Inr (VStr (g hu (VRef a)))"
       "getPropH h2 (VRef m) ''pageCssClasses'' = Inr (VRef c)" "length h1 \<le> c"
       "cell_at h2 c = Some (Array (map VStr (cssClassesFromUrlPath (g hu (VRef a)))))"
    by (elim exE conjE) (rule that; assumption)
  have len: "length h0 \<le> length h1" using p01 by (rule prefix_length_le)
  have ea: "getPropH h1 (VRef a) k = getPropH h0 (VRef a) k" for k
    using p01 a by (rule getPropH_prefix)
  have eb: "getPropH h1 (VRef b) k = getPropH h0 (VRef b) k" for k
    using p01 b by (rule getPropH_prefix)
  have ep: "getPropH h3 out k = getPropH h2 out k" for k
    unfolding out(1) using p23 out(3) by (rule getPropH_prefix)
  have em: "getPropH h3 (VRef m) k = getPropH h2 (VRef m) k" for k
    using p23 m(4) by (rule getPropH_prefix)
  have old: "getPropH h0 (VRef a) ''__metadata'' = Inr (VRef b)"
    by (simp add: a md)
  with m(1) ea have metadata: "metadata = VRef b" by simp
  have F: "getPropH h0 (VRef a) ''__metadata'' = Inr (VRef b)
          \<and> getPropH h3 out ''__metadata'' = Inr (VRef m) \<and> length h0 \<le> m
          \<and> cell_at h3 m = Some (Object nps)
          \<and> (\<forall>k. k \<noteq> ''urlPath'' \<and> k \<noteq> ''pageCssClasses'' \<longrightarrow>
                 getPropH h3 (VRef m) k = getPropH h0 (VRef b) k)
          \<and> prefix h0 hu \<and> prefix hu h3
          \<and> getPropH h3 (VRef m) ''urlPath'' = Inr (VStr (g hu (VRef a)))
          \<and> getPropH h3 (VRef m) ''pageCssClasses'' = Inr (VRef c) \<and> length h0 \<le> c
          \<and> cell_at h3 c = Some (Array (map VStr (cssClassesFromUrlPath (g hu (VRef a)))))"
  proof (intro conjI allI impI)
    show "getPropH h0 (VRef a) ''__metadata'' = Inr (VRef b)" by (rule old)
    show "getPropH h3 out ''__metadata'' = Inr (VRef m)" using m(2) by (simp only: ep)
    show "length h0 \<le> m" using len m(3) by simp
    show "cell_at h3 m = Some (Object nps)" using p23 m(4) by (rule cell_at_prefix)
    show "getPropH h3 (VRef m) k = getPropH h0 (VRef b) k"
      if "k \<noteq> ''urlPath'' \<and> k \<noteq> ''pageCssClasses''" for k
    proof -
      have "getPropH h3 (VRef m) k = getPropH h2 (VRef m) k" by (rule em)
      also have "\<dots> = getPropH h1 metadata k" using that m(5) by blast
      also have "\<dots> = getPropH h0 (VRef b) k" unfolding metadata by (rule eb)
      finally show ?thesis .
    qed
    show "prefix h0 hu" using p01 m(6) by (rule prefix_order.trans)
    show "prefix hu h3" using m(7) p23 by (rule prefix_order.trans)
    show "getPropH h3 (VRef m) ''urlPath'' = Inr (VStr (g hu (VRef a)))"
      using m(8) by (simp only: em)
    show "getPropH h3 (VRef m) ''pageCssClasses'' = Inr (VRef c)"
      using m(9) by (simp only: em)
    show "length h0 \<le> c" using len m(10) by simp
    show "cell_at h3 c = Some (Array (map VStr (cssClassesFromUrlPath (g hu (VRef a)))))"
      using p23 m(11) by (rule cell_at_prefix)
  qed
  show ?thesis
    unfolding page_record_def
  proof (intro conjI)
    show "\<exists>p ps. out = VRef p \<and> length h0 \<le> p \<and> cell_at h3 p = Some (Object ps)"
      using out len cell_at_prefix [OF p23 out(3)] by auto
    show "\<forall>k. k \<noteq> ''__metadata'' \<longrightarrow> getPropH h3 out k = getPropH h0 (VRef a) k"
      using fields by (simp only: ep ea)
    show "\<exists>metadata m mps c hu.
            getPropH h0 (VRef a) ''__metadata'' = Inr metadata
          \<and> getPropH h3 out ''__metadata'' = Inr (VRef m) \<and> length h0 \<le> m
          \<and> cell_at h3 m = Some (Object mps)
          \<and> (\<forall>k. k \<noteq> ''urlPath'' \<and> k \<noteq> ''pageCssClasses'' \<longrightarrow>
                 getPropH h3 (VRef m) k = getPropH h0 metadata k)
          \<and> prefix h0 hu \<and> prefix hu h3
          \<and> getPropH h3 (VRef m) ''urlPath'' = Inr (VStr (g hu (VRef a)))
          \<and> getPropH h3 (VRef m) ''pageCssClasses'' = Inr (VRef c) \<and> length h0 \<le> c
          \<and> cell_at h3 c = Some (Array (map VStr (cssClassesFromUrlPath (g hu (VRef a)))))"
      by (rule exI [of _ "VRef b"], rule exI [of _ m], rule exI [of _ nps],
          rule exI [of _ c], rule exI [of _ hu]) (rule F)
  qed
qed

lemma mapH_records:
  assumes "\<forall>page\<in>set entries. selectedH h0 page"
    and "prefix h0 h"
    and "mapH g h entries = Inr (outs, h')"
    and "prefix h' h3"
  shows "prefix h h' \<and> list_all2 (page_record g h0 h3) entries outs"
  using assms
proof (induction entries arbitrary: h outs)
  case Nil
  then show ?case by simp
next
  case (Cons page rest)
  from Cons.prems(3) obtain out h1 outs' where
    e: "enrichH g h page = Inr (out, h1)"
    and r: "mapH g h1 rest = Inr (outs', h')"
    and outs: "outs = out # outs'"
    by (auto split: sum.splits prod.splits)
  from Cons.prems(1) obtain a ps b mps where
    sel: "page = VRef a" "cell_at h0 a = Some (Object ps)"
         "lookup ps ''__metadata'' = Some (VRef b)" "cell_at h0 b = Some (Object mps)"
    unfolding selectedH_def by auto
  have ah: "cell_at h a = Some (Object ps)" "cell_at h b = Some (Object mps)"
    using Cons.prems(2) sel by (auto intro: cell_at_prefix)
  from enrichH_record [OF ah(1) sel(3) ah(2) e [unfolded sel(1)]]
  have step: "prefix h h1" "page_record g h h1 (VRef a) out" by simp_all
  have p01: "prefix h0 h1" using Cons.prems(2) step(1) by (rule prefix_order.trans)
  from Cons.IH [OF _ p01 r Cons.prems(4)] Cons.prems(1)
  have ih: "prefix h1 h'" "list_all2 (page_record g h0 h3) rest outs'" by simp_all
  have p13: "prefix h1 h3" using ih(1) Cons.prems(4) by (rule prefix_order.trans)
  have "page_record g h0 h3 (VRef a) out"
    using step(2) sel(2,3,4) Cons.prems(2) p13 by (rule page_record_mono)
  moreover have "prefix h h'" using step(1) ih(1) by (rule prefix_order.trans)
  ultimately show ?case using ih(2) by (simp add: outs sel(1))
qed

lemma filterE_Inr:
  "filterE p xs = Inr ys \<Longrightarrow> ys = filter (\<lambda>x. p x = Inr True) xs"
  by (induction xs arbitrary: ys) (auto split: sum.splits if_splits)

section \<open>\<^verbatim>\<open>pages\<close> on a store and \<^verbatim>\<open>pages\<close> on trees\<close>

text \<open>
  The model of \<^verbatim>\<open>pages\<close> on a store does what the model on trees does: on a store and
  a value that represent a collection of trees, it throws when the other throws, and
  otherwise returns a value that, in the new store, represents the result of the other.
\<close>

lemma repr_JObj:
  "repr (JObj ts) h v \<longleftrightarrow> (\<exists>a ps. v = VRef a \<and> cell_at h a = Some (Object ps) \<and> props_rel h ts ps)"
  by (auto simp: props_rel_def list_all2_map1 case_prod_unfold split: hval.splits option.splits cell.splits)

lemma repr_JArr:
  "repr (JArr ts) h v \<longleftrightarrow> (\<exists>a xs. v = VRef a \<and> cell_at h a = Some (Array xs)
      \<and> list_all2 (\<lambda>t x. repr t h x) ts xs)"
  by (auto simp: list_all2_map1 split: hval.splits option.splits cell.splits)

declare repr.simps(6,7) [simp del]

lemma props_rel_Nil [simp]: "props_rel h [] []"
  by (simp add: props_rel_def)

lemma props_rel_Cons [simp]:
  "props_rel h ((k, t) # ts) ((k', x) # ps) \<longleftrightarrow> k = k' \<and> repr t h x \<and> props_rel h ts ps"
  by (simp add: props_rel_def)

lemma props_rel_induct [consumes 1, case_names Nil Cons]:
  assumes "props_rel h ts ps"
    and "P [] []"
    and "\<And>k t x ts ps. repr t h x \<Longrightarrow> props_rel h ts ps \<Longrightarrow> P ts ps
           \<Longrightarrow> P ((k, t) # ts) ((k, x) # ps)"
  shows "P ts ps"
  using assms(1) unfolding props_rel_def
proof (induction rule: list_all2_induct)
  case Nil
  show ?case by (rule assms(2))
next
  case (Cons p ts q ps)
  obtain k t where p: "p = (k, t)" by (cases p)
  obtain k' x where q: "q = (k', x)" by (cases q)
  from Cons p q show ?case by (auto intro: assms(3) simp: props_rel_def)
qed

lemma repr_mono: "repr t h v \<Longrightarrow> prefix h h' \<Longrightarrow> repr t h' v"
proof (induction t arbitrary: v)
  case (JArr ts)
  from JArr.prems(1) obtain a xs where
    v: "v = VRef a" "cell_at h a = Some (Array xs)" "list_all2 (\<lambda>t x. repr t h x) ts xs"
    by (auto simp: repr_JArr)
  from v(3) have "list_all2 (\<lambda>t x. repr t h' x) ts xs"
    by (rule list.rel_mono_strong) (auto intro: JArr.IH JArr.prems(2))
  with v cell_at_prefix [OF JArr.prems(2) v(2)] show ?case by (auto simp: repr_JArr)
next
  case (JObj ts)
  from JObj.prems(1) obtain a ps where
    v: "v = VRef a" "cell_at h a = Some (Object ps)" "props_rel h ts ps"
    by (auto simp: repr_JObj)
  from v(3) have "props_rel h' ts ps"
    unfolding props_rel_def
    by (rule list.rel_mono_strong) (auto intro: JObj.IH JObj.prems(2))
  with v cell_at_prefix [OF JObj.prems(2) v(2)] show ?case by (auto simp: repr_JObj)
qed simp_all

lemma props_rel_mono: "props_rel h ts ps \<Longrightarrow> prefix h h' \<Longrightarrow> props_rel h' ts ps"
  by (induction rule: props_rel_induct) (auto intro: repr_mono)

lemma props_rel_has_key: "props_rel h ts ps \<Longrightarrow> has_key ts k = has_key ps k"
  by (induction rule: props_rel_induct) auto

lemma props_rel_lookup:
  "props_rel h ts ps \<Longrightarrow>
   (case lookup ts k of
      None \<Rightarrow> lookup ps k = None
    | Some t \<Rightarrow> \<exists>x. lookup ps k = Some x \<and> repr t h x)"
  by (induction rule: props_rel_induct) (auto split: option.splits)

lemma props_rel_append:
  "props_rel h ts ps \<Longrightarrow> props_rel h ts' ps' \<Longrightarrow> props_rel h (ts @ ts') (ps @ ps')"
  by (simp add: props_rel_def list_all2_appendI)

lemma props_rel_filter:
  "props_rel h ts ps \<Longrightarrow>
   props_rel h (filter (\<lambda>(k, v). k \<noteq> x) ts) (filter (\<lambda>(k, v). k \<noteq> x) ps)"
  by (induction rule: props_rel_induct) auto

lemma props_rel_overwrite:
  "props_rel h ts ps \<Longrightarrow> repr t h x \<Longrightarrow> props_rel h (overwrite ts k t) (overwrite ps k x)"
  by (induction rule: props_rel_induct) auto

lemma props_rel_insert_index:
  "props_rel h ts ps \<Longrightarrow> repr t h x \<Longrightarrow>
   props_rel h (insert_index n k t ts) (insert_index n k x ps)"
  by (induction rule: props_rel_induct) (auto split: option.splits)

lemma props_rel_defineProp:
  "props_rel h ts ps \<Longrightarrow> repr t h x \<Longrightarrow> props_rel h (defineProp ts k t) (defineProp ps k x)"
  by (auto simp: defineProp_def props_rel_has_key props_rel_overwrite props_rel_insert_index
             props_rel_append split: option.splits)

lemma props_rel_defineProps:
  "props_rel h qs rs \<Longrightarrow> props_rel h ts ps \<Longrightarrow>
   props_rel h (defineProps ts qs) (defineProps ps rs)"
proof (induction arbitrary: ts ps rule: props_rel_induct)
  case Nil
  then show ?case by simp
next
  case (Cons k t x qs rs)
  then show ?case by (simp add: props_rel_defineProp)
qed

lemma props_rel_indexed:
  "list_all2 (\<lambda>t x. repr t h x) ts xs \<Longrightarrow> props_rel h (indexed i ts) (indexed i xs)"
  by (induction arbitrary: i rule: list_all2_induct) auto

lemma ownProps_repr: "repr t h v \<Longrightarrow> props_rel h (ownProps t) (ownPropsH h v)"
proof (cases t)
  case (JObj ts)
  assume "repr t h v"
  with JObj show ?thesis by (auto simp: repr_JObj props_rel_defineProps)
next
  case (JArr ts)
  assume "repr t h v"
  with JArr show ?thesis by (auto simp: repr_JArr props_rel_indexed)
next
  case (JStr s)
  assume "repr t h v"
  with JStr show ?thesis
    by (auto intro!: props_rel_indexed simp: list_all2_map1 list_all2_map2 list_all2_same)
qed auto

lemma getProp_repr:
  assumes "repr t h v"
  shows "case getProp t k of
           Inl e \<Rightarrow> getPropH h v k = Inl e
         | Inr t' \<Rightarrow> \<exists>v'. getPropH h v k = Inr v' \<and> repr t' h v'"
proof (cases t)
  case (JObj ts)
  with assms obtain a ps where v: "v = VRef a" "cell_at h a = Some (Object ps)" "props_rel h ts ps"
    by (auto simp: repr_JObj)
  from props_rel_lookup [OF v(3), of k] JObj v(1,2) show ?thesis
    by (auto split: option.splits)
next
  case (JArr ts)
  with assms obtain a xs where v: "v = VRef a" "cell_at h a = Some (Array xs)"
      "list_all2 (\<lambda>t x. repr t h x) ts xs"
    by (auto simp: repr_JArr)
  from props_rel_lookup [OF props_rel_indexed [OF v(3)], of 0 k] JArr v list_all2_lengthD [OF v(3)]
  show ?thesis by (auto split: option.splits)
next
  case (JStr s)
  have "props_rel h (indexed 0 (map (\<lambda>c. JStr [c]) s)) (indexed 0 (map (\<lambda>c. VStr [c]) s))"
    by (auto intro!: props_rel_indexed simp: list_all2_map1 list_all2_map2 list_all2_same)
  from props_rel_lookup [OF this, of k] JStr assms show ?thesis
    by (auto split: option.splits)
qed (use assms in auto)

lemma repr_string: "repr t h v \<Longrightarrow> (t = JStr s \<longleftrightarrow> v = VStr s)"
  by (cases t) (auto simp: repr_JObj repr_JArr)

lemma modelName_repr:
  assumes "repr t h v"
  shows "case modelName t of
           Inl e \<Rightarrow> modelNameH h v = Inl e
         | Inr mn \<Rightarrow> \<exists>mn'. modelNameH h v = Inr mn' \<and> repr mn h mn'"
proof (cases "getProp t ''__metadata''")
  case (Inl e)
  with getProp_repr [OF assms, of "''__metadata''"] show ?thesis
    by (simp add: modelName_def modelNameH_def)
next
  case (Inr metadata)
  with getProp_repr [OF assms, of "''__metadata''"] obtain mv where
    mv: "getPropH h v ''__metadata'' = Inr mv" "repr metadata h mv"
    by auto
  from getProp_repr [OF mv(2), of "''modelName''"] Inr mv(1) show ?thesis
    by (auto simp: modelName_def modelNameH_def split: sum.splits)
qed

lemma is_page_model_repr:
  assumes "repr t h v"
  shows "is_page_modelH h v = is_page_model t"
proof (cases "modelName t")
  case (Inl e)
  with modelName_repr [OF assms] show ?thesis
    by (simp add: is_page_model_def is_page_modelH_def)
next
  case (Inr mn)
  with modelName_repr [OF assms] obtain mn' where
    mn': "modelNameH h v = Inr mn'" "repr mn h mn'"
    by auto
  have "(mn \<in> set (map JStr pageModels)) = (mn' \<in> set (map VStr pageModels))"
    using repr_string [OF mn'(2)] by (auto simp: pageModels_def)
  with Inr mn'(1) show ?thesis
    by (simp add: is_page_model_def is_page_modelH_def)
qed

lemma filterE_repr:
  assumes "list_all2 (\<lambda>t x. repr t h x) ts xs"
  shows "case filterE is_page_model ts of
           Inl e \<Rightarrow> filterE (is_page_modelH h) xs = Inl e
         | Inr ts' \<Rightarrow> \<exists>xs'. filterE (is_page_modelH h) xs = Inr xs'
                          \<and> list_all2 (\<lambda>t x. repr t h x) ts' xs'"
  using assms
proof (induction rule: list_all2_induct)
  case Nil
  then show ?case by simp
next
  case (Cons t ts x xs)
  from Cons(1) have "is_page_modelH h x = is_page_model t" by (rule is_page_model_repr)
  with Cons show ?case by (auto split: sum.splits)
qed

lemma repr_new_cell:
  "props_rel (h @ [Object ps]) ts ps \<Longrightarrow> repr (JObj ts) (h @ [Object ps]) (VRef (length h))"
  by (simp add: repr_JObj cell_at_new)

lemma repr_classes:
  "repr (JArr (map JStr cs)) (h @ [Array (map VStr cs)]) (VRef (length h))"
  by (simp add: repr_JArr cell_at_new list_all2_map1 list_all2_map2 list_all2_same)

lemma enrichH_repr:
  assumes page: "repr page h v"
    and g: "\<forall>h' v t. repr t h' v \<longrightarrow> gH h' v = g t"
  shows "case enrich g page of
           Inl e \<Rightarrow> enrichH gH h v = Inl e
         | Inr out \<Rightarrow> \<exists>out' h'. enrichH gH h v = Inr (out', h') \<and> prefix h h'
                         \<and> repr out h' out'"
proof (cases "getProp page ''__metadata''")
  case (Inl e)
  with getProp_repr [OF page, of "''__metadata''"] show ?thesis
    by (simp add: enrich_def enrichH_def)
next
  case (Inr metadata)
  with getProp_repr [OF page, of "''__metadata''"] obtain mv where
    mv: "getPropH h v ''__metadata'' = Inr mv" "repr metadata h mv"
    by auto
  define restV where
    "restV = defineProps [] (filter (\<lambda>(k, v). k \<noteq> ''__metadata'') (ownProps page))"
  define restH where
    "restH = defineProps [] (filter (\<lambda>(k, v). k \<noteq> ''__metadata'') (ownPropsH h v))"
  define h1 where "h1 = h @ [Object restH]"
  define u where "u = g page"
  define h2 where "h2 = h1 @ [Array (map VStr (cssClassesFromUrlPath u))]"
  define mdV where
    "mdV = defineProps [] (ownProps metadata @
             [(''urlPath'', JStr u),
              (''pageCssClasses'', JArr (map JStr (cssClassesFromUrlPath u)))])"
  define mdH where
    "mdH = defineProps [] (ownPropsH h2 mv @
             [(''urlPath'', VStr u), (''pageCssClasses'', VRef (length h1))])"
  define h3 where "h3 = h2 @ [Object mdH]"
  define pageV where
    "pageV = defineProps [(''__metadata'', JObj mdV)] (ownProps (JObj restV))"
  define pageH where
    "pageH = defineProps [(''__metadata'', VRef (length h2))] (ownPropsH h3 (VRef (length h)))"
  define h4 where "h4 = h3 @ [Object pageH]"
  have pre: "prefix h h1" "prefix h h2" "prefix h h3" "prefix h1 h3" "prefix h2 h3"
      "prefix h3 h4" "prefix h h4"
    by (simp_all add: h1_def h2_def h3_def h4_def)
  have gu: "gH h1 v = u"
    unfolding u_def using g repr_mono [OF page pre(1)] by blast
  have value_side: "enrich g page = Inr (JObj pageV)"
    by (simp add: enrich_def Inr newMetadata_def restProps_def pageV_def mdV_def restV_def u_def)
  have store_side: "enrichH gH h v = Inr (VRef (length h3), h4)"
    unfolding h4_def pageH_def h3_def mdH_def h2_def
    by (simp add: enrichH_def alloc_def Let_def mv(1) restH_def [symmetric] h1_def [symmetric] gu)
  have rest: "props_rel h restV restH"
    unfolding restV_def restH_def
    by (intro props_rel_defineProps props_rel_filter ownProps_repr page) simp
  then have "props_rel h1 restV restH" using pre(1) by (rule props_rel_mono)
  then have "repr (JObj restV) h1 (VRef (length h))"
    unfolding h1_def by (rule repr_new_cell)
  then have rest3: "repr (JObj restV) h3 (VRef (length h))" using pre(4) by (rule repr_mono)
  have css: "repr (JArr (map JStr (cssClassesFromUrlPath u))) h2 (VRef (length h1))"
    unfolding h2_def by (rule repr_classes)
  have "repr metadata h2 mv" using mv(2) pre(2) by (rule repr_mono)
  then have "props_rel h2 mdV mdH"
    unfolding mdV_def mdH_def
    by (intro props_rel_defineProps props_rel_append ownProps_repr) (simp_all add: css)
  then have "props_rel h3 mdV mdH" using pre(5) by (rule props_rel_mono)
  then have md3: "repr (JObj mdV) h3 (VRef (length h2))"
    unfolding h3_def by (rule repr_new_cell)
  have "props_rel h3 pageV pageH"
    unfolding pageV_def pageH_def
    by (intro props_rel_defineProps ownProps_repr rest3) (simp add: md3)
  then have "props_rel h4 pageV pageH" using pre(6) by (rule props_rel_mono)
  then have "repr (JObj pageV) h4 (VRef (length h3))"
    unfolding h4_def by (rule repr_new_cell)
  with value_side store_side pre(7) show ?thesis by simp
qed

lemma mapH_repr:
  assumes "list_all2 (\<lambda>t x. repr t h x) ts xs"
    and g: "\<forall>h' v t. repr t h' v \<longrightarrow> gH h' v = g t"
  shows "case mapE (enrich g) ts of
           Inl e \<Rightarrow> mapH gH h xs = Inl e
         | Inr outs \<Rightarrow> \<exists>outs' h'. mapH gH h xs = Inr (outs', h') \<and> prefix h h'
                         \<and> list_all2 (\<lambda>t x. repr t h' x) outs outs'"
  using assms(1)
proof (induction ts arbitrary: xs h)
  case Nil
  then show ?case by simp
next
  case (Cons t ts)
  from Cons.prems obtain x xs' where xs: "xs = x # xs'" "repr t h x"
      "list_all2 (\<lambda>t x. repr t h x) ts xs'"
    by (auto simp: list_all2_Cons1)
  show ?case
  proof (cases "enrich g t")
    case (Inl e)
    with enrichH_repr [OF xs(2) g] show ?thesis by (simp add: xs(1))
  next
    case (Inr out)
    with enrichH_repr [OF xs(2) g] obtain out' h1 where
      e: "enrichH gH h x = Inr (out', h1)" "prefix h h1" "repr out h1 out'"
      by auto
    have "list_all2 (\<lambda>t x. repr t h1 x) ts xs'"
      using xs(3) by (rule list.rel_mono_strong) (rule repr_mono [OF _ e(2)])
    note ih = Cons.IH [OF this]
    show ?thesis
    proof (cases "mapE (enrich g) ts")
      case (Inl e')
      with ih Inr e(1) show ?thesis by (simp add: xs(1))
    next
      case r: (Inr outs)
      with ih obtain outs' h2 where
        m: "mapH gH h1 xs' = Inr (outs', h2)" "prefix h1 h2"
           "list_all2 (\<lambda>t x. repr t h2 x) outs outs'"
        by auto
      have "repr out h2 out'" using e(3) m(2) by (rule repr_mono)
      moreover have "prefix h h2" using e(2) m(2) by (rule prefix_order.trans)
      ultimately show ?thesis using Inr r e(1) m by (simp add: xs(1))
    qed
  qed
qed

lemma pagesH_refines_pages:
  assumes "repr (JArr entries) h objects"
    and g: "\<forall>h' v t. repr t h' v \<longrightarrow> gH h' v = g t"
  shows "case pages g entries of
           Inl e \<Rightarrow> pagesH gH h objects = Inl e
         | Inr outs \<Rightarrow> \<exists>result h'. pagesH gH h objects = Inr (result, h')
                         \<and> repr (JArr outs) h' result"
proof -
  from assms(1) obtain a xs where
    obj: "objects = VRef a" "cell_at h a = Some (Array xs)"
    and rel: "list_all2 (\<lambda>t x. repr t h x) entries xs"
    by (auto simp: repr_JArr)
  show ?thesis
  proof (cases "filterE is_page_model entries")
    case (Inl e)
    with filterE_repr [OF rel] obj show ?thesis by (simp add: pages_def pagesH_def)
  next
    case (Inr selected)
    with filterE_repr [OF rel] obtain selected' where
      sel: "filterE (is_page_modelH h) xs = Inr selected'"
           "list_all2 (\<lambda>t x. repr t h x) selected selected'"
      by auto
    define h1 where "h1 = h @ [Array selected']"
    have "list_all2 (\<lambda>t x. repr t h1 x) selected selected'"
      using sel(2) by (rule list.rel_mono_strong) (erule repr_mono, simp add: h1_def)
    note m = mapH_repr [OF this g]
    show ?thesis
    proof (cases "mapE (enrich g) selected")
      case (Inl e)
      with m Inr obj sel(1) show ?thesis
        by (simp add: pages_def pagesH_def alloc_def h1_def)
    next
      case r: (Inr outs)
      with m obtain outs' h2 where
        o: "mapH gH h1 selected' = Inr (outs', h2)"
           "list_all2 (\<lambda>t x. repr t h2 x) outs outs'"
        by auto
      define h4 where "h4 = h2 @ [Array outs'] @ [Array outs']"
      have run: "pagesH gH h objects = Inr (VRef (Suc (length h2)), h4)"
        using obj sel(1) o(1) by (simp add: pagesH_def alloc_def h1_def h4_def)
      have "list_all2 (\<lambda>t x. repr t h4 x) outs outs'"
        using o(2) by (rule list.rel_mono_strong) (erule repr_mono, simp add: h4_def)
      moreover have "cell_at h4 (Suc (length h2)) = Some (Array outs')"
        by (simp add: cell_at_def h4_def nth_append)
      ultimately have "repr (JArr outs) h4 (VRef (Suc (length h2)))"
        by (simp add: repr_JArr)
      with run Inr r show ?thesis by (simp add: pages_def)
    qed
  qed
qed

lemma slug_urlH_repr: "repr t h v \<Longrightarrow> slug_urlH h v = slug_url t"
  using getProp_repr [of t h v "''slug''"]
  by (auto simp: slug_url_def slug_urlH_def repr_JObj repr_JArr
           split: sum.splits jsval.splits hval.splits list.splits)

lemma slug_urlH_refines_slug_url: "\<forall>h' v t. repr t h' v \<longrightarrow> slug_urlH h' v = slug_url t"
  by (simp add: slug_urlH_repr)


lemma enrichH_prefix: "enrichH g h v = Inr (out, h') \<Longrightarrow> prefix h h'"
  by (auto simp: enrichH_def alloc_def Let_def split: sum.splits)

lemma mapH_prefix: "mapH g h xs = Inr (outs, h') \<Longrightarrow> prefix h h'"
proof (induction xs arbitrary: h outs)
  case Nil
  then show ?case by simp
next
  case (Cons x xs)
  from Cons.prems obtain out h1 outs' where
    e: "enrichH g h x = Inr (out, h1)" and r: "mapH g h1 xs = Inr (outs', h')"
    by (auto split: sum.splits prod.splits)
  from enrichH_prefix [OF e] Cons.IH [OF r] show ?case by (rule prefix_order.trans)
qed

lemma pagesH_prefix: "pagesH g h objects = Inr (result, h') \<Longrightarrow> prefix h h'"
proof -
  assume "pagesH g h objects = Inr (result, h')"
  then obtain selected outs h2 where
    m: "mapH g (h @ [Array selected]) selected = Inr (outs, h2)"
    and h': "h' = h2 @ [Array outs, Array outs]"
    by (auto simp: pagesH_def alloc_def Let_def
             split: hval.splits option.splits cell.splits sum.splits prod.splits)
  have "prefix h (h @ [Array selected])" by simp
  also have "prefix (h @ [Array selected]) h2" using m by (rule mapH_prefix)
  also have "prefix h2 h'" by (simp add: h')
  finally show ?thesis .
qed

lemma commonPropsH_prefix: "commonPropsH h objects = Inr (result, h') \<Longrightarrow> prefix h h'"
  by (auto simp: commonPropsH_def alloc_def
           split: hval.splits option.splits cell.splits sum.splits)

lemma modelName_is_repr:
  assumes "repr t h v"
  shows "modelName_isH name h v = modelName_is name t"
proof (cases "modelName t")
  case (Inl e)
  with modelName_repr [OF assms] show ?thesis
    by (simp add: modelName_is_def modelName_isH_def)
next
  case (Inr mn)
  with modelName_repr [OF assms] obtain mn' where
    mn': "modelNameH h v = Inr mn'" "repr mn h mn'"
    by auto
  from repr_string [OF mn'(2), of name] Inr mn'(1) show ?thesis
    by (simp add: modelName_is_def modelName_isH_def)
qed

lemma findE_repr:
  assumes "list_all2 (\<lambda>t x. repr t h x) ts xs"
  shows "case findE (modelName_is name) ts of
           Inl e \<Rightarrow> findE (modelName_isH name h) xs = Inl e
         | Inr None \<Rightarrow> findE (modelName_isH name h) xs = Inr None
         | Inr (Some t) \<Rightarrow> \<exists>x. findE (modelName_isH name h) xs = Inr (Some x) \<and> repr t h x"
  using assms
proof (induction rule: list_all2_induct)
  case Nil
  then show ?case by simp
next
  case (Cons t ts x xs)
  from Cons(1) have "modelName_isH name h x = modelName_is name t" by (rule modelName_is_repr)
  with Cons show ?case by (auto split: sum.splits option.splits bool.splits)
qed

lemma commonPropsH_refines_commonProps:
  assumes "repr (JArr entries) h objects"
  shows "case commonProps entries of
           Inl e \<Rightarrow> commonPropsH h objects = Inl e
         | Inr props \<Rightarrow> \<exists>result h'. commonPropsH h objects = Inr (result, h')
                          \<and> repr props h' result"
proof -
  from assms obtain a xs where
    obj: "objects = VRef a" "cell_at h a = Some (Array xs)"
    and rel: "list_all2 (\<lambda>t x. repr t h x) entries xs"
    by (auto simp: repr_JArr)
  show ?thesis
  proof (cases "findE (modelName_is ''Config'') entries")
    case (Inl e)
    with findE_repr [OF rel, of "''Config''"] obj show ?thesis
      by (simp add: commonProps_def commonPropsH_def)
  next
    case (Inr found)
    show ?thesis
    proof (cases found)
      case None
      with Inr findE_repr [OF rel, of "''Config''"] obj show ?thesis
        by (simp add: commonProps_def commonPropsH_def alloc_def repr_JObj cell_at_new)
    next
      case (Some site)
      with Inr findE_repr [OF rel, of "''Config''"] obtain x where
        x: "findE (modelName_isH ''Config'' h) xs = Inr (Some x)" "repr site h x"
        by auto
      have "repr site (h @ [Object [(''site'', x)]]) x"
        using x(2) by (rule repr_mono) simp
      with Inr Some x(1) obj show ?thesis
        by (simp add: commonProps_def commonPropsH_def alloc_def repr_JObj cell_at_new)
    qed
  qed
qed

section \<open>Splitting and sanitizing\<close>

lemma split_on_not_Nil: "split_on sep s \<noteq> []"
  by (induction s) (auto split: list.splits)

lemma join_on_Cons: "segs \<noteq> [] \<Longrightarrow> join_on sep (seg # segs) = seg @ sep # join_on sep segs"
  by (cases segs) auto

lemma join_on_split_on: "join_on sep (split_on sep s) = s"
proof (induction s)
  case Nil
  then show ?case by simp
next
  case (Cons c cs)
  show ?case
  proof (cases "c = sep")
    case True
    with Cons show ?thesis by (simp add: join_on_Cons split_on_not_Nil)
  next
    case False
    obtain seg segs where sp: "split_on sep cs = seg # segs"
      using split_on_not_Nil [of sep cs] by (cases "split_on sep cs") auto
    with Cons False show ?thesis by (cases segs) auto
  qed
qed

lemma split_on_no_sep: "seg \<in> set (split_on sep s) \<Longrightarrow> sep \<notin> set seg"
  by (induction s arbitrary: seg) (auto split: if_splits list.splits)

lemma to_lower_alnum: "is_alnum c \<Longrightarrow> is_digit (to_lower c) \<or> is_lower (to_lower c)"
  by (auto simp: is_alnum_def to_lower_def is_lower_def is_upper_def)

lemma sanitize_chars:
  "c \<in> set (sanitize seg) \<Longrightarrow> is_digit c \<or> is_lower c \<or> c = CHR ''-''"
  using to_lower_alnum by (auto simp: sanitize_def)

lemma sanitize_Nil_iff: "sanitize seg = [] \<longleftrightarrow> seg = []"
  by (simp add: sanitize_def)

lemma home_chars: "c \<in> set ''home'' \<Longrightarrow> is_lower c"
  by (auto simp: is_lower_def)

lemma cssClassesFromUrlPath_tokens:
  assumes "token \<in> set (cssClassesFromUrlPath urlPath)"
  shows "token \<noteq> [] \<and> (\<forall>c\<in>set token. is_digit c \<or> is_lower c \<or> c = CHR ''-'')"
proof (cases "filter (\<lambda>seg. seg \<noteq> []) (split_on (CHR ''/'') urlPath) = []")
  case True
  with assms have "token = ''home''" by (simp add: cssClassesFromUrlPath_def)
  then show ?thesis using home_chars by auto
next
  case False
  with assms obtain seg where "seg \<noteq> []" "token = sanitize seg"
    by (auto simp: cssClassesFromUrlPath_def)
  then show ?thesis using sanitize_chars by (auto simp: sanitize_Nil_iff)
qed

lemma cssClassesFromUrlPath_not_Nil: "cssClassesFromUrlPath urlPath \<noteq> []"
  by (simp add: cssClassesFromUrlPath_def Let_def)

section \<open>The examples\<close>

lemma css_about: "cssClassesFromUrlPath ''/about'' = [''about'']"
  by code_simp

lemma example_entries_wf:
  "metadata_record example_config \<noteq> None" "metadata_record example_page \<noteq> None"
  "metadata_record example_post \<noteq> None" "metadata_record (example_style ident) \<noteq> None"
  "entry_modelName example_config = Some ''Config''"
  "entry_modelName example_page = Some ''PageLayout''"
  "entry_modelName example_post = Some ''PostLayout''"
  "entry_modelName (example_style ident) = Some ''ThemeStyle''"
  by (simp_all add: entry_modelName_def metadata_record_def example_config_def example_page_def
        example_post_def example_style_def)

lemma example_fs_free:
  "\<not> list_ex (\<lambda>q. files example_fs q \<noteq> None) (prefixes ([''site''] @ [''content'', ''data'']))"
  "[''site''] @ [''content'', ''data'', ''style.json''] \<notin> dirs example_fs"
  by (simp_all add: example_fs_def)

lemma example_data_objects: "getProp (example_data objects) ''objects'' = Inr (JArr objects)"
  by (simp add: example_data_def)

lemma slug_url_contract: "getPageUrl_contract slug_url"
  by (auto simp: getPageUrl_contract_def slug_url_def split: sum.splits jsval.splits list.splits)

lemma example_pages: "pages slug_url [example_config, example_page] = Inr [example_page_out]"
  by code_simp

lemma example_store_run:
  "pagesH slug_urlH example_store (VRef 4) = Inr (VRef 11, example_store_after)"
  by code_simp

lemma slug_url_pure: "getPageUrl_pure slug_urlH slug_url"
  by (simp add: getPageUrl_pure_def slug_urlH_repr)

lemma example_store_repr: "repr (JArr example_store_entries) example_store (VRef 4)"
  by code_simp

lemma example_store_grows: "prefix example_store example_store_after"
  by (simp add: example_store_after_def)

lemma example_second_run:
  "map_sum id fst (pagesH slug_urlH example_store_after (VRef 4)) = Inr (VRef 18)"
  by code_simp

section \<open>The class names of a page\<close>

text \<open>
  C2. For every \<^verbatim>\<open>urlPath\<close>, \<^verbatim>\<open>cssClassesFromUrlPath\<close> gives the sanitized non-empty
  segments of the path, in order, where the segments are the pieces between the
  slashes (they join back to the path with \<^verbatim>\<open>/\<close> and contain no \<^verbatim>\<open>/\<close>), and a
  sanitized segment is the segment lowercased with each character that is not
  alphanumeric replaced by \<^verbatim>\<open>-\<close>; when no segment remains the result is the one token
  \<^verbatim>\<open>home\<close>. Every token is non-empty and made of lowercase letters, digits and \<^verbatim>\<open>-\<close>.
  The root path gives \<^verbatim>\<open>["home"]\<close> and \<^verbatim>\<open>/blog/my-post\<close> gives \<^verbatim>\<open>["blog", "my-post"]\<close>.
\<close>

theorem cssClassesFromUrlPath_spec:
  "(\<exists>segments. segments \<noteq> [] \<and> join_on (CHR ''/'') segments = urlPath
      \<and> (\<forall>seg\<in>set segments. CHR ''/'' \<notin> set seg)
      \<and> cssClassesFromUrlPath urlPath =
          (if filter (\<lambda>seg. seg \<noteq> []) segments = [] then [''home'']
           else map (map (\<lambda>c. if is_alnum c then to_lower c else CHR ''-''))
                  (filter (\<lambda>seg. seg \<noteq> []) segments)))
   \<and> (\<forall>token\<in>set (cssClassesFromUrlPath urlPath).
         token \<noteq> [] \<and> (\<forall>c\<in>set token. is_digit c \<or> is_lower c \<or> c = CHR ''-''))
   \<and> cssClassesFromUrlPath ''/'' = [''home'']
   \<and> cssClassesFromUrlPath ''/blog/my-post'' = [''blog'', ''my-post'']"
proof -
  have "\<exists>segments. segments \<noteq> [] \<and> join_on (CHR ''/'') segments = urlPath
      \<and> (\<forall>seg\<in>set segments. CHR ''/'' \<notin> set seg)
      \<and> cssClassesFromUrlPath urlPath =
          (if filter (\<lambda>seg. seg \<noteq> []) segments = [] then [''home'']
           else map (map (\<lambda>c. if is_alnum c then to_lower c else CHR ''-''))
                  (filter (\<lambda>seg. seg \<noteq> []) segments))"
    by (rule exI [of _ "split_on (CHR ''/'') urlPath"])
       (auto simp: split_on_not_Nil join_on_split_on split_on_no_sep
                   cssClassesFromUrlPath_def Let_def sanitize_def [abs_def])
  moreover have "cssClassesFromUrlPath ''/'' = [''home'']"
    by code_simp
  moreover have "cssClassesFromUrlPath ''/blog/my-post'' = [''blog'', ''my-post'']"
    by code_simp
  ultimately show ?thesis
    using cssClassesFromUrlPath_tokens [of _ urlPath] by blast
qed

theorem cssClassesFromUrlPath_spec_witness:
  "cssClassesFromUrlPath ''/Docs/Getting Started/'' = [''docs'', ''getting-started'']
   \<and> list_all (\<lambda>token. token \<noteq> []) (cssClassesFromUrlPath ''/Docs/Getting Started/'')
   \<and> join_on (CHR ''/'') [[], ''Docs'', ''Getting Started'', []] = ''/Docs/Getting Started/''"
proof -
  have computed: "cssClassesFromUrlPath ''/Docs/Getting Started/'' = [''docs'', ''getting-started'']"
    by code_simp
  have "\<forall>token\<in>set (cssClassesFromUrlPath ''/Docs/Getting Started/''). token \<noteq> []"
    using cssClassesFromUrlPath_spec [of "''/Docs/Getting Started/''"] by blast
  then have "list_all (\<lambda>token. token \<noteq> []) (cssClassesFromUrlPath ''/Docs/Getting Started/'')"
    by (simp add: list_all_iff)
  moreover have "join_on (CHR ''/'') [[], ''Docs'', ''Getting Started'', []] = ''/Docs/Getting Started/''"
    by simp
  ultimately show ?thesis using computed by blast
qed

section \<open>Selecting the pages\<close>

text \<open>
  C1. On a collection of content entries (each an object with a metadata record),
  \<^verbatim>\<open>pages()\<close> returns, and its result is the order-preserving filter of the input: the
  entries whose model name is \<^verbatim>\<open>PageLayout\<close>, \<^verbatim>\<open>PostFeedLayout\<close> or \<^verbatim>\<open>PostLayout\<close>, in
  their original order, each passed through the callback of \<^verbatim>\<open>map\<close>, which leaves
  every property but \<^verbatim>\<open>__metadata\<close> as it reads on the entry. The model names of the
  output are those of the selected entries, so the output is no longer than the input
  and every output entry has a model name of the allow-list.
\<close>

theorem pages_is_ordered_filter:
  assumes "\<forall>entry\<in>set objects. metadata_record entry \<noteq> None"
  shows "\<exists>out. pages getPageUrl objects = Inr out
     \<and> list_all2 (\<lambda>entry page. enrich getPageUrl entry = Inr page
                          \<and> (\<forall>k. k \<noteq> ''__metadata'' \<longrightarrow> getProp page k = getProp entry k))
          (filter is_page_entry objects) out
     \<and> map entry_modelName out = map entry_modelName (filter is_page_entry objects)
     \<and> length out \<le> length objects
     \<and> (\<forall>page\<in>set out. entry_modelName page
            \<in> {Some ''PageLayout'', Some ''PostFeedLayout'', Some ''PostLayout''})"
proof -
  define selected where "selected = filter is_page_entry objects"
  define image where "image = (\<lambda>entry.
    JObj (defineProps [(''__metadata'',
            newMetadata (JObj (the (metadata_record entry))) (getPageUrl entry))]
          (ownProps (restProps entry))))"
  have sel: "filterE is_page_model objects = Inr selected"
    unfolding selected_def using assms by (intro filterE_total) (simp add: is_page_model_entry)
  have md: "\<forall>entry\<in>set selected. metadata_record entry \<noteq> None"
    using assms by (auto simp: selected_def)
  have each: "\<forall>entry\<in>set selected. enrich getPageUrl entry = Inr (image entry)"
    using md by (auto simp: image_def enrich_entry)
  then have out: "pages getPageUrl objects = Inr (map image selected)"
    by (simp add: pages_def sel mapE_total)
  have fields: "\<forall>entry\<in>set selected. \<forall>k. k \<noteq> ''__metadata'' \<longrightarrow>
                  getProp (image entry) k = getProp entry k"
  proof (intro ballI allI impI)
    fix entry k assume e: "entry \<in> set selected" and k: "k \<noteq> ''__metadata''"
    with md obtain m where "metadata_record entry = Some m" by auto
    moreover from each e have "enrich getPageUrl entry = Inr (image entry)" by simp
    ultimately show "getProp (image entry) k = getProp entry k"
      using k by (rule enrich_fields)
  qed
  have rel: "list_all2 (\<lambda>entry page. enrich getPageUrl entry = Inr page
                          \<and> (\<forall>k. k \<noteq> ''__metadata'' \<longrightarrow> getProp page k = getProp entry k))
               selected (map image selected)"
    using each fields by (simp add: list_all2_conv_all_nth)
  have names: "map entry_modelName (map image selected) = map entry_modelName selected"
  proof -
    have "\<forall>entry\<in>set selected. entry_modelName (image entry) = entry_modelName entry"
    proof
      fix entry assume e: "entry \<in> set selected"
      with md obtain m where "metadata_record entry = Some m" by auto
      moreover from each e have "enrich getPageUrl entry = Inr (image entry)" by simp
      ultimately show "entry_modelName (image entry) = entry_modelName entry"
        by (rule entry_modelName_enriched)
    qed
    then show ?thesis by simp
  qed
  have len: "length (map image selected) \<le> length objects"
    by (simp add: selected_def)
  have allow: "\<forall>page\<in>set (map image selected). entry_modelName page
            \<in> {Some ''PageLayout'', Some ''PostFeedLayout'', Some ''PostLayout''}"
  proof
    fix page assume "page \<in> set (map image selected)"
    then obtain entry where e: "entry \<in> set selected" "page = image entry" by auto
    then have "entry_modelName page \<in> set (map entry_modelName (map image selected))" by auto
    with names have "entry_modelName page \<in> set (map entry_modelName selected)" by simp
    then obtain e' where "e' \<in> set selected" "entry_modelName page = entry_modelName e'" by auto
    then show "entry_modelName page
            \<in> {Some ''PageLayout'', Some ''PostFeedLayout'', Some ''PostLayout''}"
      by (simp add: selected_def is_page_entry_def)
  qed
  from out rel names len allow show ?thesis
    unfolding selected_def by blast
qed

theorem pages_is_ordered_filter_witness:
  "list_all (\<lambda>entry. metadata_record entry \<noteq> None)
     [example_config, example_page, example_untagged, example_post]
   \<and> (\<exists>out. pages slug_url [example_config, example_page, example_untagged, example_post] = Inr out
         \<and> map entry_modelName out = [Some ''PageLayout'', Some ''PostLayout''])"
proof -
  let ?entries = "[example_config, example_page, example_untagged, example_post]"
  have h: "\<forall>entry\<in>set ?entries. metadata_record entry \<noteq> None"
    by (simp add: metadata_record_def example_config_def example_page_def example_untagged_def
                  example_post_def)
  have f: "filter is_page_entry ?entries = [example_page, example_post]"
    by (simp add: is_page_entry_def entry_modelName_def metadata_record_def example_config_def
                  example_page_def example_untagged_def example_post_def)
  have n: "map entry_modelName [example_page, example_post]
             = [Some ''PageLayout'', Some ''PostLayout'']"
    by (simp add: entry_modelName_def metadata_record_def example_page_def example_post_def)
  have "\<exists>out. pages slug_url ?entries = Inr out
          \<and> map entry_modelName out = [Some ''PageLayout'', Some ''PostLayout'']"
    using pages_is_ordered_filter [OF h, of slug_url]
  proof (elim exE conjE)
    fix out
    assume a: "pages slug_url ?entries = Inr out"
      and b: "map entry_modelName out = map entry_modelName (filter is_page_entry ?entries)"
    from b have "map entry_modelName out = [Some ''PageLayout'', Some ''PostLayout'']"
      by (simp only: f n)
    with a show ?thesis by (intro exI conjI)
  qed
  moreover have "list_all (\<lambda>entry. metadata_record entry \<noteq> None) ?entries"
    using h by (simp only: list_all_iff)
  ultimately show ?thesis by (rule conjI [rotated])
qed

text \<open>
  C3. The claim that a malformed entry is skipped and the rest of the batch still
  processed does not hold: one entry without \<^verbatim>\<open>__metadata\<close> makes \<^verbatim>\<open>pages()\<close> throw, with
  no result for the well-formed page beside it.
\<close>

theorem pages_malformed_entry_fatal:
  "pages slug_url [example_malformed, example_page] = Inl TypeError
   \<and> \<not> (\<exists>out. pages slug_url [example_malformed, example_page] = Inr out)"
  by (simp add: pages_def is_page_model_def modelName_def example_malformed_def)

text \<open>
  C3, as the code has it. An entry without a metadata record (\<^verbatim>\<open>__metadata\<close> absent,
  \<^verbatim>\<open>undefined\<close> or \<^verbatim>\<open>null\<close>, or the entry itself \<^verbatim>\<open>undefined\<close> or \<^verbatim>\<open>null\<close>) anywhere in the
  collection makes \<^verbatim>\<open>pages()\<close> throw a \<^verbatim>\<open>TypeError\<close> for the whole collection. An entry
  with a metadata record but without a model name is left out, and the result is the
  one the collection without that entry gives.
\<close>

theorem pages_missing_metadata:
  "(lacks_metadata entry \<longrightarrow> pages getPageUrl (before @ entry # after) = Inl TypeError)
   \<and> (metadata_record entry \<noteq> None \<and> entry_modelName entry = None \<longrightarrow>
        pages getPageUrl (before @ entry # after) = pages getPageUrl (before @ after))"
proof (intro conjI impI)
  assume "lacks_metadata entry"
  then have "is_page_model entry = Inl TypeError"
    by (simp add: is_page_model_def lacks_metadata_throws)
  then have "filterE is_page_model (before @ entry # after) = Inl TypeError"
    using is_page_model_error by (intro filterE_throws [of entry]) auto
  then show "pages getPageUrl (before @ entry # after) = Inl TypeError"
    by (simp add: pages_def)
next
  assume "metadata_record entry \<noteq> None \<and> entry_modelName entry = None"
  then have "is_page_model entry = Inr False"
    by (simp add: is_page_model_entry is_page_entry_def)
  then show "pages getPageUrl (before @ entry # after) = pages getPageUrl (before @ after)"
    by (simp add: pages_def filterE_skip)
qed

theorem pages_missing_metadata_witness:
  "lacks_metadata example_malformed
   \<and> pages slug_url ([example_page] @ example_malformed # [example_post]) = Inl TypeError
   \<and> metadata_record example_untagged \<noteq> None \<and> entry_modelName example_untagged = None
   \<and> pages slug_url ([example_page] @ example_untagged # [example_post])
       = pages slug_url ([example_page] @ [example_post])"
proof -
  have a: "lacks_metadata example_malformed"
    by (simp add: lacks_metadata_def example_malformed_def)
  have b: "metadata_record example_untagged \<noteq> None \<and> entry_modelName example_untagged = None"
    by (simp add: entry_modelName_def metadata_record_def example_untagged_def)
  have c: "pages slug_url ([example_page] @ example_malformed # [example_post]) = Inl TypeError"
    by (rule pages_missing_metadata
          [of example_malformed slug_url "[example_page]" "[example_post]",
           THEN conjunct1, THEN mp, OF a])
  have d: "pages slug_url ([example_page] @ example_untagged # [example_post])
       = pages slug_url ([example_page] @ [example_post])"
    by (rule pages_missing_metadata
          [of example_untagged slug_url "[example_page]" "[example_post]",
           THEN conjunct2, THEN mp, OF b])
  from a b c d show ?thesis by (intro conjI) (elim conjE, assumption)+
qed

section \<open>The site configuration\<close>

text \<open>
  C4. On a collection of content entries, \<^verbatim>\<open>commonProps()\<close> returns \<^verbatim>\<open>{ site }\<close> where
  \<^verbatim>\<open>site\<close> is the first entry, in input order, whose model name is \<^verbatim>\<open>Config\<close>: the
  entry found by a search from the front, which is the entry \<^verbatim>\<open>site\<close> of any split
  \<^verbatim>\<open>before @ site # after\<close> with no \<^verbatim>\<open>Config\<close> in \<^verbatim>\<open>before\<close>. On the empty collection and
  on a collection without a \<^verbatim>\<open>Config\<close> entry it returns \<^verbatim>\<open>{ site: undefined }\<close>, a normal
  return and not an error.
\<close>

theorem commonProps_first_Config:
  assumes "\<forall>entry\<in>set objects. metadata_record entry \<noteq> None"
  shows "commonProps objects =
           Inr (JObj [(''site'',
                  case List.find (\<lambda>entry. entry_modelName entry = Some ''Config'') objects of
                    Some site \<Rightarrow> site
                  | None \<Rightarrow> JUndefined)])
     \<and> (\<forall>before site after.
           objects = before @ site # after \<and> entry_modelName site = Some ''Config''
           \<and> (\<forall>entry\<in>set before. entry_modelName entry \<noteq> Some ''Config'')
           \<longrightarrow> commonProps objects = Inr (JObj [(''site'', site)]))
     \<and> ((\<forall>entry\<in>set objects. entry_modelName entry \<noteq> Some ''Config'')
           \<longrightarrow> commonProps objects = Inr (JObj [(''site'', JUndefined)]))
     \<and> commonProps [] = Inr (JObj [(''site'', JUndefined)])"
proof -
  let ?is_config = "\<lambda>entry. entry_modelName entry = Some ''Config''"
  have found: "findE (modelName_is ''Config'') objects = Inr (List.find ?is_config objects)"
    using assms by (intro findE_total) (simp add: modelName_is_entry)
  then have main: "commonProps objects =
           Inr (JObj [(''site'', case List.find ?is_config objects of
                    Some site \<Rightarrow> site | None \<Rightarrow> JUndefined)])"
    by (simp add: commonProps_def)
  have first: "commonProps objects = Inr (JObj [(''site'', site)])"
    if "objects = before @ site # after" "entry_modelName site = Some ''Config''"
       "\<forall>entry\<in>set before. entry_modelName entry \<noteq> Some ''Config''"
    for before site after
  proof -
    from that have "List.find ?is_config objects = Some site"
      by (simp add: find_first)
    with main show ?thesis by simp
  qed
  have none: "commonProps objects = Inr (JObj [(''site'', JUndefined)])"
    if "\<forall>entry\<in>set objects. entry_modelName entry \<noteq> Some ''Config''"
  proof -
    from that have "List.find ?is_config objects = None"
      by (simp add: find_None_iff)
    with main show ?thesis by simp
  qed
  have empty: "commonProps [] = Inr (JObj [(''site'', JUndefined)])"
    by (simp add: commonProps_def)
  from main first none empty show ?thesis by blast
qed

theorem commonProps_first_Config_witness:
  "list_all (\<lambda>entry. metadata_record entry \<noteq> None)
     [example_page, example_config, example_post, example_style ''s1'']
   \<and> commonProps [example_page, example_config, example_post, example_style ''s1'']
       = Inr (JObj [(''site'', example_config)])
   \<and> list_all (\<lambda>entry. metadata_record entry \<noteq> None) [example_page, example_post]
   \<and> commonProps [example_page, example_post] = Inr (JObj [(''site'', JUndefined)])"
proof -
  have h1: "\<forall>entry\<in>set [example_page, example_config, example_post, example_style ''s1''].
              metadata_record entry \<noteq> None"
    by (simp add: metadata_record_def example_config_def example_page_def example_post_def
                  example_style_def)
  have h2: "\<forall>entry\<in>set [example_page, example_post]. metadata_record entry \<noteq> None"
    by (simp add: metadata_record_def example_page_def example_post_def)
  have f1: "List.find (\<lambda>entry. entry_modelName entry = Some ''Config'')
              [example_page, example_config, example_post, example_style ''s1'']
            = Some example_config"
    by (simp add: entry_modelName_def metadata_record_def example_config_def example_page_def)
  have n2: "\<forall>entry\<in>set [example_page, example_post]. entry_modelName entry \<noteq> Some ''Config''"
    by (simp add: entry_modelName_def metadata_record_def example_page_def example_post_def)
  have a: "commonProps [example_page, example_config, example_post, example_style ''s1'']
       = Inr (JObj [(''site'', example_config)])"
    using commonProps_first_Config [OF h1, THEN conjunct1] by (simp only: f1 option.case)
  have b: "commonProps [example_page, example_post] = Inr (JObj [(''site'', JUndefined)])"
    by (rule commonProps_first_Config [OF h2, THEN conjunct2, THEN conjunct2, THEN conjunct1,
              THEN mp, OF n2])
  from h1 h2 a b show ?thesis by (simp only: list_all_iff simp_thms)
qed

section \<open>The end-to-end example\<close>

text \<open>
  C5. On the entries as the spec writes them, with \<^verbatim>\<open>modelName\<close> and \<^verbatim>\<open>id\<close> at the top of
  each entry, both \<^verbatim>\<open>commonProps()\<close> and \<^verbatim>\<open>pages()\<close> throw, since neither entry has
  \<^verbatim>\<open>__metadata\<close>. On the same entries with the two fields in \<^verbatim>\<open>__metadata\<close>, the page
  record has no \<^verbatim>\<open>urlPath\<close> and no \<^verbatim>\<open>pageCssClasses\<close> of its own, where the spec's output
  shape puts them.
\<close>

theorem end_to_end_spec_example_fails:
  "commonProps spec_example = Inl TypeError
   \<and> pages slug_url spec_example = Inl TypeError
   \<and> pages slug_url [example_config, example_page] = Inr [example_page_out]
   \<and> getProp example_page_out ''urlPath'' = Inr JUndefined
   \<and> getProp example_page_out ''pageCssClasses'' = Inr JUndefined"
  by code_simp

text \<open>
  C5, as the code has it. For the entries
  \<^verbatim>\<open>[{__metadata: {modelName: "Config", id: "c1"}},
    {__metadata: {modelName: "PageLayout", id: "p1"}, slug: "/about"}]\<close>
  and a \<^verbatim>\<open>getPageUrl\<close> that gives \<^verbatim>\<open>/about\<close> for the page, \<^verbatim>\<open>commonProps()\<close> returns
  \<^verbatim>\<open>{ site: <the Config entry> }\<close> and \<^verbatim>\<open>pages()\<close> returns the one record
  \<^verbatim>\<open>{__metadata: {modelName: "PageLayout", id: "p1", urlPath: "/about",
    pageCssClasses: ["about"]}, slug: "/about"}\<close>: the two derived fields are in
  \<^verbatim>\<open>__metadata\<close>.
\<close>

theorem end_to_end_example:
  assumes "getPageUrl example_page = ''/about''"
  shows "commonProps [example_config, example_page] = Inr (JObj [(''site'', example_config)])
     \<and> pages getPageUrl [example_config, example_page] = Inr [example_page_out]
     \<and> getProp example_page_out ''__metadata''
         = Inr (JObj [(''modelName'', JStr ''PageLayout''), (''id'', JStr ''p1''),
                      (''urlPath'', JStr ''/about''),
                      (''pageCssClasses'', JArr [JStr ''about''])])"
proof -
  have site: "commonProps [example_config, example_page] = Inr (JObj [(''site'', example_config)])"
    by (simp add: commonProps_def modelName_is_def modelName_def example_config_def)
  have sel: "filterE is_page_model [example_config, example_page] = Inr [example_page]"
    by (simp add: is_page_model_def modelName_def pageModels_def example_config_def
                  example_page_def)
  have "enrich getPageUrl example_page = Inr example_page_out"
    unfolding enrich_def assms
    by (simp add: example_page_def example_page_out_def newMetadata_def restProps_def
                  defineProp_def array_index_def is_digit_def css_about)
  with sel have "pages getPageUrl [example_config, example_page] = Inr [example_page_out]"
    by (simp add: pages_def)
  moreover have "getProp example_page_out ''__metadata''
         = Inr (JObj [(''modelName'', JStr ''PageLayout''), (''id'', JStr ''p1''),
                      (''urlPath'', JStr ''/about''),
                      (''pageCssClasses'', JArr [JStr ''about''])])"
    by (simp add: example_page_out_def)
  ultimately show ?thesis using site by (intro conjI)
qed

theorem end_to_end_example_witness:
  "slug_url example_page = ''/about''
   \<and> commonProps [example_config, example_page] = Inr (JObj [(''site'', example_config)])
   \<and> pages slug_url [example_config, example_page] = Inr [example_page_out]"
proof -
  have h: "slug_url example_page = ''/about''"
    by (simp add: slug_url_def example_page_def)
  from end_to_end_example [of slug_url, OF h] h show ?thesis by (elim conjE) (intro conjI)
qed

section \<open>The derived fields of a page\<close>

text \<open>
  C6. For a \<^verbatim>\<open>getPageUrl\<close> that keeps the contract the spec states (its result is a
  \<^verbatim>\<open>/\<close>-rooted path), every record that \<^verbatim>\<open>pages()\<close> returns has a metadata record whose
  \<^verbatim>\<open>urlPath\<close> is that \<^verbatim>\<open>/\<close>-rooted string and whose \<^verbatim>\<open>pageCssClasses\<close> is the array of the
  classes computed from it, which is never empty; for the root path it is \<^verbatim>\<open>["home"]\<close>.
\<close>

theorem pages_urlPath_and_classes:
  assumes "getPageUrl_contract getPageUrl"
    and "pages getPageUrl objects = Inr out"
    and "page \<in> set out"
  shows "\<exists>md rest classes.
           metadata_record page = Some md
         \<and> lookup md ''urlPath'' = Some (JStr (CHR ''/'' # rest))
         \<and> lookup md ''pageCssClasses'' = Some (JArr (map JStr classes))
         \<and> classes = cssClassesFromUrlPath (CHR ''/'' # rest)
         \<and> classes \<noteq> []
         \<and> (rest = [] \<longrightarrow> classes = [''home''])"
proof -
  from assms(2) obtain selected where
    sel: "filterE is_page_model objects = Inr selected"
    and mapped: "mapE (enrich getPageUrl) selected = Inr out"
    by (auto simp: pages_def split: sum.splits)
  from mapE_members [OF mapped assms(3)] obtain entry where
    "entry \<in> set selected" and e: "enrich getPageUrl entry = Inr page"
    by blast
  from enrich_result [OF e] obtain metadata where
    page: "page = JObj (defineProps [(''__metadata'', newMetadata metadata (getPageUrl entry))]
                            (ownProps (restProps entry)))"
    by blast
  from assms(1) obtain rest where url: "getPageUrl entry = CHR ''/'' # rest"
    unfolding getPageUrl_contract_def by blast
  let ?md = "defineProps [] (ownProps metadata @
              [(''urlPath'', JStr (CHR ''/'' # rest)),
               (''pageCssClasses'', JArr (map JStr (cssClassesFromUrlPath (CHR ''/'' # rest))))])"
  have rec: "metadata_record page = Some ?md"
    unfolding page url by (rule metadata_record_enriched)
  have u: "lookup ?md ''urlPath'' = Some (JStr (CHR ''/'' # rest))"
    by (simp add: lookup_new_metadata)
  have c: "lookup ?md ''pageCssClasses''
             = Some (JArr (map JStr (cssClassesFromUrlPath (CHR ''/'' # rest))))"
    by (simp add: lookup_new_metadata)
  have root: "rest = [] \<longrightarrow> cssClassesFromUrlPath (CHR ''/'' # rest) = [''home'']"
    by (simp add: cssClassesFromUrlPath_def)
  from rec u c root cssClassesFromUrlPath_not_Nil [of "CHR ''/'' # rest"]
  show ?thesis by blast
qed

theorem pages_urlPath_and_classes_witness:
  "getPageUrl_contract slug_url
   \<and> pages slug_url [example_config, example_page] = Inr [example_page_out]
   \<and> (\<exists>md rest classes.
           metadata_record example_page_out = Some md
         \<and> lookup md ''urlPath'' = Some (JStr (CHR ''/'' # rest))
         \<and> lookup md ''pageCssClasses'' = Some (JArr (map JStr classes))
         \<and> classes \<noteq> [])"
proof -
  have "example_page_out \<in> set [example_page_out]" by simp
  from pages_urlPath_and_classes [OF slug_url_contract example_pages this]
  have "\<exists>md rest classes.
           metadata_record example_page_out = Some md
         \<and> lookup md ''urlPath'' = Some (JStr (CHR ''/'' # rest))
         \<and> lookup md ''pageCssClasses'' = Some (JArr (map JStr classes))
         \<and> classes \<noteq> []"
    by blast
  with slug_url_contract example_pages show ?thesis by (intro conjI)
qed

section \<open>Running the projector twice\<close>

text \<open>
  C7. Take a store in which the input collection is tree-shaped, and a \<^verbatim>\<open>getPageUrl\<close>
  that gives for an entry what it gives for the tree of the entry. Run \<^verbatim>\<open>pages()\<close> on
  the collection, and run it again on the same collection in any store that extends
  the first one, such as the store that the first run of \<^verbatim>\<open>pages()\<close> or of
  \<^verbatim>\<open>commonProps()\<close> left. If the first run throws, the second throws the same error.
  If the first run returns, it has changed no cell, the second run returns too, and
  the two results, new objects each, represent one and the same tree: the same
  properties with the same values in the same order, so the same serialization. The
  same holds of \<^verbatim>\<open>commonProps()\<close>.
\<close>

theorem projector_twice:
  assumes "repr (JArr entries) h objects"
    and "getPageUrl_pure getPageUrlH getPageUrl"
    and "prefix h h'"
  shows "(case pagesH getPageUrlH h objects of
            Inl e \<Rightarrow> pagesH getPageUrlH h' objects = Inl e
          | Inr (pages1, h1) \<Rightarrow>
              prefix h h1
              \<and> (\<exists>pages2 h2 outs.
                    pagesH getPageUrlH h' objects = Inr (pages2, h2)
                  \<and> pages getPageUrl entries = Inr outs
                  \<and> repr (JArr outs) h1 pages1 \<and> repr (JArr outs) h2 pages2))
     \<and> (case commonPropsH h objects of
            Inl e \<Rightarrow> commonPropsH h' objects = Inl e
          | Inr (props1, h1) \<Rightarrow>
              prefix h h1
              \<and> (\<exists>props2 h2 props.
                    commonPropsH h' objects = Inr (props2, h2)
                  \<and> commonProps entries = Inr props
                  \<and> repr props h1 props1 \<and> repr props h2 props2))"
proof -
  have g: "\<forall>h v t. repr t h v \<longrightarrow> getPageUrlH h v = getPageUrl t"
    using assms(2) by (simp add: getPageUrl_pure_def)
  have second: "repr (JArr entries) h' objects"
    using assms(1,3) by (rule repr_mono)
  note p1 = pagesH_refines_pages [OF assms(1) g]
  note p2 = pagesH_refines_pages [OF second g]
  note c1 = commonPropsH_refines_commonProps [OF assms(1)]
  note c2 = commonPropsH_refines_commonProps [OF second]
  have pages_part: "case pagesH getPageUrlH h objects of
            Inl e \<Rightarrow> pagesH getPageUrlH h' objects = Inl e
          | Inr (pages1, h1) \<Rightarrow>
              prefix h h1
              \<and> (\<exists>pages2 h2 outs.
                    pagesH getPageUrlH h' objects = Inr (pages2, h2)
                  \<and> pages getPageUrl entries = Inr outs
                  \<and> repr (JArr outs) h1 pages1 \<and> repr (JArr outs) h2 pages2)"
  proof (cases "pages getPageUrl entries")
    case (Inl e)
    with p1 p2 show ?thesis by simp
  next
    case (Inr outs)
    with p1 obtain r1 h1 where
      first: "pagesH getPageUrlH h objects = Inr (r1, h1)" "repr (JArr outs) h1 r1"
      by auto
    from Inr p2 obtain r2 h2 where
      again: "pagesH getPageUrlH h' objects = Inr (r2, h2)" "repr (JArr outs) h2 r2"
      by auto
    from first again Inr pagesH_prefix [OF first(1)] show ?thesis by auto
  qed
  have props_part: "case commonPropsH h objects of
            Inl e \<Rightarrow> commonPropsH h' objects = Inl e
          | Inr (props1, h1) \<Rightarrow>
              prefix h h1
              \<and> (\<exists>props2 h2 props.
                    commonPropsH h' objects = Inr (props2, h2)
                  \<and> commonProps entries = Inr props
                  \<and> repr props h1 props1 \<and> repr props h2 props2)"
  proof (cases "commonProps entries")
    case (Inl e)
    with c1 c2 show ?thesis by simp
  next
    case (Inr props)
    with c1 obtain r1 h1 where
      first: "commonPropsH h objects = Inr (r1, h1)" "repr props h1 r1"
      by auto
    from Inr c2 obtain r2 h2 where
      again: "commonPropsH h' objects = Inr (r2, h2)" "repr props h2 r2"
      by auto
    from first again Inr commonPropsH_prefix [OF first(1)] show ?thesis by auto
  qed
  from pages_part props_part show ?thesis by (rule conjI)
qed

theorem projector_twice_witness:
  "repr (JArr example_store_entries) example_store (VRef 4)
   \<and> getPageUrl_pure slug_urlH slug_url
   \<and> prefix example_store example_store_after
   \<and> pagesH slug_urlH example_store (VRef 4) = Inr (VRef 11, example_store_after)
   \<and> map_sum id fst (pagesH slug_urlH example_store_after (VRef 4)) = Inr (VRef 18)
   \<and> (\<exists>pages2 h2 outs.
          pagesH slug_urlH example_store_after (VRef 4) = Inr (pages2, h2)
        \<and> pages slug_url example_store_entries = Inr outs
        \<and> repr (JArr outs) example_store_after (VRef 11) \<and> repr (JArr outs) h2 pages2)"
proof -
  have "case pagesH slug_urlH example_store (VRef 4) of
            Inl e \<Rightarrow> pagesH slug_urlH example_store_after (VRef 4) = Inl e
          | Inr (pages1, h1) \<Rightarrow>
              prefix example_store h1
              \<and> (\<exists>pages2 h2 outs.
                    pagesH slug_urlH example_store_after (VRef 4) = Inr (pages2, h2)
                  \<and> pages slug_url example_store_entries = Inr outs
                  \<and> repr (JArr outs) h1 pages1 \<and> repr (JArr outs) h2 pages2)"
    by (rule projector_twice [OF example_store_repr slug_url_pure example_store_grows,
              THEN conjunct1])
  then have "\<exists>pages2 h2 outs.
          pagesH slug_urlH example_store_after (VRef 4) = Inr (pages2, h2)
        \<and> pages slug_url example_store_entries = Inr outs
        \<and> repr (JArr outs) example_store_after (VRef 11) \<and> repr (JArr outs) h2 pages2"
    by (simp add: example_store_run)
  with example_store_repr slug_url_pure example_store_grows example_store_run example_second_run
  show ?thesis by (intro conjI)
qed

section \<open>The side channel\<close>

text \<open>
  C8. On a data object whose \<^verbatim>\<open>objects\<close> are content entries, and a file system where
  nothing stands in the way of \<^verbatim>\<open>content/data/style.json\<close> below \<^verbatim>\<open>__dirname\<close>, \<^verbatim>\<open>transform\<close>
  returns the data object it was given; when the collection has a \<^verbatim>\<open>ThemeStyle\<close> entry,
  the files afterwards are the files before with the serialization of the first such
  entry at that one path, and otherwise the file system is unchanged. The output of
  the plugin that follows is computed from the same data. Whenever \<^verbatim>\<open>transform\<close>
  returns at all, on any file system, it returns the data object it was given.
\<close>

theorem transform_saves_style_and_returns_data:
  assumes "getProp data ''objects'' = Inr (JArr objects)"
    and "\<forall>entry\<in>set objects. metadata_record entry \<noteq> None"
    and "\<not> list_ex (\<lambda>q. files fs q \<noteq> None) (prefixes (dirname @ [''content'', ''data'']))"
    and "dirname @ [''content'', ''data'', ''style.json''] \<notin> dirs fs"
  shows "(\<exists>fs'. transform dirname stringify fs data = (Inr data, fs')
          \<and> (case List.find (\<lambda>entry. entry_modelName entry = Some ''ThemeStyle'') objects of
                Some style \<Rightarrow>
                  files fs' = (files fs)(dirname @ [''content'', ''data'', ''style.json'']
                                           \<mapsto> stringify style)
              | None \<Rightarrow> fs' = fs)
          \<and> run_plugins dirname stringify next_plugin fs data = (next_plugin data, fs'))
     \<and> (\<forall>fs0 returned fs1.
           transform dirname stringify fs0 data = (Inr returned, fs1) \<longrightarrow> returned = data)"
proof -
  let ?find = "List.find (\<lambda>entry. entry_modelName entry = Some ''ThemeStyle'') objects"
  have unchanged: "returned = data"
    if "transform dirname stringify fs0 data = (Inr returned, fs1)" for fs0 returned fs1
    using that assms(1) by (auto simp: transform_def split: prod.splits sum.splits)
  have "\<exists>fs'. transform dirname stringify fs data = (Inr data, fs')
          \<and> (case ?find of
                Some style \<Rightarrow>
                  files fs' = (files fs)(dirname @ [''content'', ''data'', ''style.json'']
                                           \<mapsto> stringify style)
              | None \<Rightarrow> fs' = fs)"
  proof (cases ?find)
    case None
    then show ?thesis
      by (simp add: transform_def assms(1) find_ThemeStyle_entries [OF assms(2)])
  next
    case (Some style)
    from save_style_ok [of fs dirname stringify style] assms(3,4)
    obtain fs' where "save_style dirname stringify fs style = (Inr True, fs')"
      and "files fs' = (files fs)(style_file dirname \<mapsto> stringify style)"
      by (auto simp: style_dir_def style_file_def)
    with Some show ?thesis
      by (simp add: transform_def assms(1) find_ThemeStyle_entries [OF assms(2)] style_file_def)
  qed
  then obtain fs' where t: "transform dirname stringify fs data = (Inr data, fs')"
    and f: "case ?find of
                Some style \<Rightarrow>
                  files fs' = (files fs)(dirname @ [''content'', ''data'', ''style.json'']
                                           \<mapsto> stringify style)
              | None \<Rightarrow> fs' = fs"
    by blast
  from t have "run_plugins dirname stringify next_plugin fs data = (next_plugin data, fs')"
    by (simp add: run_plugins_def)
  with t f unchanged show ?thesis by blast
qed

theorem transform_saves_style_and_returns_data_witness:
  "getProp (example_data [example_config, example_style ''s1'', example_page]) ''objects''
      = Inr (JArr [example_config, example_style ''s1'', example_page])
   \<and> list_all (\<lambda>entry. metadata_record entry \<noteq> None)
        [example_config, example_style ''s1'', example_page]
   \<and> \<not> list_ex (\<lambda>q. files example_fs q \<noteq> None) (prefixes ([''site''] @ [''content'', ''data'']))
   \<and> [''site''] @ [''content'', ''data'', ''style.json''] \<notin> dirs example_fs
   \<and> (\<exists>fs'. transform [''site''] example_stringify example_fs
               (example_data [example_config, example_style ''s1'', example_page])
             = (Inr (example_data [example_config, example_style ''s1'', example_page]), fs')
          \<and> files fs' [''site'', ''content'', ''data'', ''style.json''] = Some ''s1'')"
proof -
  let ?objects = "[example_config, example_style ''s1'', example_page]"
  have wf: "\<forall>entry\<in>set ?objects. metadata_record entry \<noteq> None"
    using example_entries_wf(1,2,4) by simp
  have found: "List.find (\<lambda>entry. entry_modelName entry = Some ''ThemeStyle'') ?objects
                 = Some (example_style ''s1'')"
    by (simp add: example_entries_wf)
  have str: "example_stringify (example_style ''s1'') = ''s1''"
    by (simp add: example_stringify_def example_style_def)
  from transform_saves_style_and_returns_data
         [OF example_data_objects wf example_fs_free, of example_stringify, THEN conjunct1]
  obtain fs' where "transform [''site''] example_stringify example_fs (example_data ?objects)
             = (Inr (example_data ?objects), fs')"
    and "files fs' = (files example_fs)([''site''] @ [''content'', ''data'', ''style.json'']
                                           \<mapsto> example_stringify (example_style ''s1''))"
    unfolding found by auto
  then have "\<exists>fs'. transform [''site''] example_stringify example_fs (example_data ?objects)
             = (Inr (example_data ?objects), fs')
          \<and> files fs' [''site'', ''content'', ''data'', ''style.json''] = Some ''s1''"
    by (simp add: str)
  moreover have "list_all (\<lambda>entry. metadata_record entry \<noteq> None) ?objects"
    using wf by (simp only: list_all_iff)
  ultimately show ?thesis
    using example_data_objects [of ?objects] example_fs_free by (intro conjI)
qed

text \<open>
  C10. When the first \<^verbatim>\<open>ThemeStyle\<close> entry of the collection is \<^verbatim>\<open>style\<close> (the entries
  before it are content entries of other models), \<^verbatim>\<open>transform\<close> writes the serialization
  of \<^verbatim>\<open>style\<close> to \<^verbatim>\<open>content/data/style.json\<close> and nothing else, whatever follows \<^verbatim>\<open>style\<close>
  in the collection: later \<^verbatim>\<open>ThemeStyle\<close> entries are not looked at. When no entry is a
  \<^verbatim>\<open>ThemeStyle\<close>, the file system is left as it was: no file is written.
\<close>

theorem transform_first_ThemeStyle_only:
  "(getProp data ''objects'' = Inr (JArr (before @ style # after))
      \<and> (\<forall>entry\<in>set before.
            metadata_record entry \<noteq> None \<and> entry_modelName entry \<noteq> Some ''ThemeStyle'')
      \<and> metadata_record style \<noteq> None \<and> entry_modelName style = Some ''ThemeStyle''
      \<and> \<not> list_ex (\<lambda>q. files fs q \<noteq> None) (prefixes (dirname @ [''content'', ''data'']))
      \<and> dirname @ [''content'', ''data'', ''style.json''] \<notin> dirs fs
    \<longrightarrow> (\<exists>fs'. transform dirname stringify fs data = (Inr data, fs')
           \<and> files fs' = (files fs)(dirname @ [''content'', ''data'', ''style.json'']
                                    \<mapsto> stringify style)))
   \<and> (getProp data ''objects'' = Inr (JArr objects)
      \<and> (\<forall>entry\<in>set objects.
            metadata_record entry \<noteq> None \<and> entry_modelName entry \<noteq> Some ''ThemeStyle'')
    \<longrightarrow> transform dirname stringify fs data = (Inr data, fs))"
proof (intro conjI impI)
  assume h: "getProp data ''objects'' = Inr (JArr (before @ style # after))
      \<and> (\<forall>entry\<in>set before.
            metadata_record entry \<noteq> None \<and> entry_modelName entry \<noteq> Some ''ThemeStyle'')
      \<and> metadata_record style \<noteq> None \<and> entry_modelName style = Some ''ThemeStyle''
      \<and> \<not> list_ex (\<lambda>q. files fs q \<noteq> None) (prefixes (dirname @ [''content'', ''data'']))
      \<and> dirname @ [''content'', ''data'', ''style.json''] \<notin> dirs fs"
  then have b: "\<forall>entry\<in>set before. modelName_is ''ThemeStyle'' entry = Inr False"
    and s: "modelName_is ''ThemeStyle'' style = Inr True"
    by (simp_all add: modelName_is_entry)
  from save_style_ok [of fs dirname stringify style] h
  obtain fs' where "save_style dirname stringify fs style = (Inr True, fs')"
    and "files fs' = (files fs)(style_file dirname \<mapsto> stringify style)"
    by (auto simp: style_dir_def style_file_def)
  with h show "\<exists>fs'. transform dirname stringify fs data = (Inr data, fs')
           \<and> files fs' = (files fs)(dirname @ [''content'', ''data'', ''style.json'']
                                    \<mapsto> stringify style)"
    by (simp add: transform_def find_ThemeStyle_first [OF b s] style_file_def)
next
  assume h: "getProp data ''objects'' = Inr (JArr objects)
      \<and> (\<forall>entry\<in>set objects.
            metadata_record entry \<noteq> None \<and> entry_modelName entry \<noteq> Some ''ThemeStyle'')"
  then have "\<forall>entry\<in>set objects. modelName_is ''ThemeStyle'' entry = Inr False"
    by (simp add: modelName_is_entry)
  with h show "transform dirname stringify fs data = (Inr data, fs)"
    by (simp add: transform_def find_ThemeStyle_none)
qed

theorem transform_first_ThemeStyle_only_witness:
  "(\<exists>fs'. transform [''site''] example_stringify example_fs
               (example_data ([example_config] @ example_style ''s1''
                               # [example_malformed, example_style ''s2'']))
             = (Inr (example_data ([example_config] @ example_style ''s1''
                               # [example_malformed, example_style ''s2''])), fs')
          \<and> files fs' [''site'', ''content'', ''data'', ''style.json''] = Some ''s1'')
   \<and> transform [''site''] example_stringify example_fs (example_data [example_config, example_page])
       = (Inr (example_data [example_config, example_page]), example_fs)"
proof -
  let ?after = "[example_malformed, example_style ''s2'']"
  let ?data = "example_data ([example_config] @ example_style ''s1'' # ?after)"
  have str: "example_stringify (example_style ''s1'') = ''s1''"
    by (simp add: example_stringify_def example_style_def)
  have h1: "getProp ?data ''objects'' = Inr (JArr ([example_config] @ example_style ''s1'' # ?after))
      \<and> (\<forall>entry\<in>set [example_config].
            metadata_record entry \<noteq> None \<and> entry_modelName entry \<noteq> Some ''ThemeStyle'')
      \<and> metadata_record (example_style ''s1'') \<noteq> None
      \<and> entry_modelName (example_style ''s1'') = Some ''ThemeStyle''
      \<and> \<not> list_ex (\<lambda>q. files example_fs q \<noteq> None) (prefixes ([''site''] @ [''content'', ''data'']))
      \<and> [''site''] @ [''content'', ''data'', ''style.json''] \<notin> dirs example_fs"
    using example_fs_free by (simp add: example_entries_wf example_data_objects)
  from transform_first_ThemeStyle_only [THEN conjunct1, THEN mp, OF h1, of example_stringify]
  obtain fs' where "transform [''site''] example_stringify example_fs ?data = (Inr ?data, fs')"
    and "files fs' = (files example_fs)([''site''] @ [''content'', ''data'', ''style.json'']
                                           \<mapsto> example_stringify (example_style ''s1''))"
    by auto
  then have a: "\<exists>fs'. transform [''site''] example_stringify example_fs ?data = (Inr ?data, fs')
          \<and> files fs' [''site'', ''content'', ''data'', ''style.json''] = Some ''s1''"
    by (simp add: str)
  have h2: "getProp (example_data [example_config, example_page]) ''objects''
        = Inr (JArr [example_config, example_page])
      \<and> (\<forall>entry\<in>set [example_config, example_page].
            metadata_record entry \<noteq> None \<and> entry_modelName entry \<noteq> Some ''ThemeStyle'')"
    using example_entries_wf(1,2) by (simp add: example_entries_wf(5,6) example_data_objects)
  have b: "transform [''site''] example_stringify example_fs (example_data [example_config, example_page])
       = (Inr (example_data [example_config, example_page]), example_fs)"
    by (rule transform_first_ThemeStyle_only [THEN conjunct2, THEN mp, OF h2])
  from a b show ?thesis by (intro conjI)
qed

section \<open>What \<^verbatim>\<open>pages\<close> leaves as it was\<close>

text \<open>
  C9. The claim that the derived fields are merged into the metadata without replacing
  an existing field does not hold: for a post whose metadata already has a \<^verbatim>\<open>urlPath\<close>,
  the metadata of the page record has the computed \<^verbatim>\<open>urlPath\<close> in its place.
\<close>

theorem pages_replaces_existing_urlPath:
  "pagesH slug_urlH example_stale_store (VRef 2) = Inr (VRef 9, example_stale_store_after)
   \<and> cell_at example_stale_store_after 9 = Some (Array [VRef 7])
   \<and> getPropH example_stale_store (VRef 1) ''__metadata'' = Inr (VRef 0)
   \<and> getPropH example_stale_store (VRef 0) ''urlPath'' = Inr (VStr ''stale'')
   \<and> getPropH example_stale_store_after (VRef 7) ''__metadata'' = Inr (VRef 6)
   \<and> getPropH example_stale_store_after (VRef 6) ''urlPath'' = Inr (VStr ''/blog/hello'')
   \<and> getPropH example_stale_store_after (VRef 6) ''urlPath''
        \<noteq> getPropH example_stale_store (VRef 0) ''urlPath''"
  by code_simp

text \<open>
  C9, as the code has it. When \<^verbatim>\<open>pages()\<close> returns, every cell of the store that existed
  before the call is as it was: the input array and its elements are not mutated. The
  result is a new array with one record for each selected entry, in order, and each
  record is a new object on which every property other than \<^verbatim>\<open>__metadata\<close> reads as on
  the entry, and whose \<^verbatim>\<open>__metadata\<close> is a new object that keeps every property of the
  entry's metadata but \<^verbatim>\<open>urlPath\<close> and \<^verbatim>\<open>pageCssClasses\<close>: these two hold the result of
  \<^verbatim>\<open>getPageUrl\<close> and the array of the classes computed from it, whatever the metadata
  of the entry had under those names.
\<close>

theorem pagesH_keeps_input_and_fields:
  assumes "pagesH getPageUrl h objects = Inr (result, h')"
  shows "take (length h) h' = h
     \<and> (\<exists>a entries r outs.
           objects = VRef a \<and> cell_at h a = Some (Array entries)
         \<and> result = VRef r \<and> length h \<le> r \<and> cell_at h' r = Some (Array outs)
         \<and> list_all2 (page_record getPageUrl h h')
              (filter (\<lambda>entry. is_page_modelH h entry = Inr True) entries) outs)"
proof -
  from assms obtain a entries selected outs h2 where
    obj: "objects = VRef a" "cell_at h a = Some (Array entries)"
    and sel: "filterE (is_page_modelH h) entries = Inr selected"
    and mapped: "mapH getPageUrl (h @ [Array selected]) selected = Inr (outs, h2)"
    and res: "result = VRef (Suc (length h2))" "h' = h2 @ [Array outs, Array outs]"
    by (auto simp: pagesH_def alloc_def Let_def
             split: hval.splits option.splits cell.splits sum.splits prod.splits)
  have selected: "selected = filter (\<lambda>entry. is_page_modelH h entry = Inr True) entries"
    using sel by (rule filterE_Inr)
  have all: "\<forall>page\<in>set selected. selectedH h page"
    unfolding selected selectedH_def by (auto dest: is_page_modelH_True)
  have p1: "prefix h (h @ [Array selected])" by simp
  have p3: "prefix h2 h'" by (simp add: res)
  from mapH_records [OF all p1 mapped p3]
  have p2: "prefix (h @ [Array selected]) h2"
    and recs: "list_all2 (page_record getPageUrl h h') selected outs"
    by simp_all
  have "prefix h h'" using p1 p2 p3 by (meson prefix_order.trans)
  then have frame: "take (length h) h' = h" by (auto simp: prefix_def)
  have len: "length h \<le> Suc (length h2)"
    using prefix_length_le [OF p2] by simp
  have cell: "cell_at h' (Suc (length h2)) = Some (Array outs)"
    by (simp add: cell_at_def res nth_append)
  from frame obj res(1) len cell recs show ?thesis
    unfolding selected by blast
qed

theorem pagesH_keeps_input_and_fields_witness:
  "pagesH slug_urlH example_store (VRef 4) = Inr (VRef 11, example_store_after)
   \<and> take (length example_store) example_store_after = example_store
   \<and> cell_at example_store_after 11 = Some (Array [VRef 9])
   \<and> getPropH example_store_after (VRef 9) ''slug'' = getPropH example_store (VRef 3) ''slug''
   \<and> getPropH example_store_after (VRef 9) ''site'' = Inr (VRef 1)
   \<and> getPropH example_store_after (VRef 9) ''__metadata'' = Inr (VRef 8)
   \<and> getPropH example_store_after (VRef 8) ''id'' = Inr (VStr ''p1'')
   \<and> getPropH example_store_after (VRef 8) ''urlPath'' = Inr (VStr ''/about'')"
proof -
  have frame: "take (length example_store) example_store_after = example_store"
    using pagesH_keeps_input_and_fields [OF example_store_run] by (rule conjunct1)
  have "cell_at example_store_after 11 = Some (Array [VRef 9])"
    "getPropH example_store_after (VRef 9) ''slug'' = getPropH example_store (VRef 3) ''slug''"
    "getPropH example_store_after (VRef 9) ''site'' = Inr (VRef 1)"
    "getPropH example_store_after (VRef 9) ''__metadata'' = Inr (VRef 8)"
    "getPropH example_store_after (VRef 8) ''id'' = Inr (VStr ''p1'')"
    "getPropH example_store_after (VRef 8) ''urlPath'' = Inr (VStr ''/about'')"
    by code_simp+
  with example_store_run frame show ?thesis by (intro conjI)
qed

end
